theory Spec2Isabelle
  imports Main "HOL-Library.AList"
begin

section \<open>Values shared by the modules\<close>

text \<open>
  Parameter payloads, resource payloads and event data are \<open>unknown\<close> in the source:
  any JSON-like value.
\<close>

datatype json =
    JNull
  | JBool bool
  | JNum int
  | JStr string
  | JArr "json list"
  | JObj "(string \<times> json) list"

text \<open>
  A thrown value (or the reason of a rejected promise). The source distinguishes
  \<open>error instanceof Error\<close> (it reads \<open>error.message\<close>) from any other value (it takes
  \<open>String(error)\<close>). \<open>Error m\<close> is an error object with the message \<open>m\<close>; \<open>NonError str\<close> is
  another value, kept by its string conversion \<open>str\<close>; \<open>Unconvertible e\<close> is a value whose
  conversion throws \<open>e\<close> itself: an object without prototype, for which \<open>String\<close> throws
  a \<open>TypeError\<close>, or an object whose \<open>toString\<close> or \<open>message\<close> getter throws.
\<close>

datatype thrown = Error string | NonError string | Unconvertible thrown

text \<open>\<open>types/index.ts\<close>: \<open>ToolResult\<close>, \<open>Notification\<close>, \<open>TabInfo\<close>.\<close>

record ToolResult =
  success :: bool
  data :: "json option"
  error :: "string option"

record Notification =
  n_type :: string
  n_data :: json
  timestamp :: "int option"

record TabInfo =
  tab_id :: string
  label :: string
  icon :: "string option"
  closable :: "bool option"
  content :: "string option"

section \<open>Event bus\<close>

text \<open>
  The data an event carries. Each constructor is one of the object shapes the modelled
  callers pass to \<open>emit\<close>: \<open>{name, params}\<close>, \<open>{name, params, result}\<close>, \<open>{uri}\<close>, the
  enriched notification, a tab, \<open>{id}\<close>, or any other value.
\<close>

datatype payload =
    ToolCall string json
  | ToolResultOf string json ToolResult
  | ResourceRead string
  | Notify Notification
  | TabOpened TabInfo
  | IdOnly string
  | Other json

datatype level = Log | Warn | Err

text \<open>
  What a call does to the world outside its own object, in order: a line on the console
  (the text of the first argument, without an interpolated id), the call of the handler
  of a subscription (subscription id, event name, data), and a call of the attached
  transport's \<open>sendNotification\<close>.
\<close>

datatype effect =
    Console level string
  | Invoke nat string payload
  | Send Notification

text \<open>
  A subscription. The id \<open>sub_<n>\<close> is kept as the number \<open>n\<close>. A handler is modelled by
  what its call does to \<open>emit\<close>: it returns (\<open>None\<close>) or throws synchronously
  (\<open>Some e\<close>). Handlers that call back into the bus are outside this model.
\<close>

record Subscription =
  sub_id :: nat
  sub_handler :: "payload \<Rightarrow> thrown option"
  once :: bool

record EventBus =
  subscriptions :: "(string \<times> Subscription list) list"
  subscriptionCounter :: nat
  bus_debug :: bool

definition new_EventBus :: "bool \<Rightarrow> EventBus" where
  "new_EventBus dbg = \<lparr>subscriptions = [], subscriptionCounter = 0, bus_debug = dbg\<rparr>"

text \<open>
  \<open>subscribe\<close>: the counter is incremented first, the event's list is created when
  absent, and the subscription is pushed at its end. The closure the source returns is
  \<open>unsubscribe\<close> below, applied to the same event and id.
\<close>

definition subscribe ::
  "string \<Rightarrow> (payload \<Rightarrow> thrown option) \<Rightarrow> bool \<Rightarrow> EventBus \<Rightarrow> (effect list \<times> nat) \<times> EventBus" where
  "subscribe event h onc b =
    (let n = Suc (subscriptionCounter b);
         subs0 = (case map_of (subscriptions b) event of
                    None \<Rightarrow> AList.update event [] (subscriptions b)
                  | Some _ \<Rightarrow> subscriptions b);
         cur = (case map_of subs0 event of None \<Rightarrow> [] | Some l \<Rightarrow> l);
         subs1 = AList.update event (cur @ [\<lparr>sub_id = n, sub_handler = h, once = onc\<rparr>]) subs0
     in ((if bus_debug b then [Console Log (''[EventBus] subscribe: '' @ event)] else [], n),
         b\<lparr>subscriptions := subs1, subscriptionCounter := n\<rparr>))"

definition unsubscribe :: "string \<Rightarrow> nat \<Rightarrow> EventBus \<Rightarrow> effect list \<times> EventBus" where
  "unsubscribe event n b =
    (case map_of (subscriptions b) event of
       None \<Rightarrow> ([], b)
     | Some subs \<Rightarrow>
         (if bus_debug b then [Console Log (''[EventBus] unsubscribe: '' @ event)] else [],
          b\<lparr>subscriptions := AList.update event (filter (\<lambda>s. sub_id s \<noteq> n) subs) (subscriptions b)\<rparr>))"

text \<open>The methods \<open>on\<close> and \<open>once\<close>.\<close>

definition on_event :: "string \<Rightarrow> (payload \<Rightarrow> thrown option) \<Rightarrow> EventBus \<Rightarrow> (effect list \<times> nat) \<times> EventBus" where
  "on_event event h b = subscribe event h False b"

definition once_event :: "string \<Rightarrow> (payload \<Rightarrow> thrown option) \<Rightarrow> EventBus \<Rightarrow> (effect list \<times> nat) \<times> EventBus" where
  "once_event event h b = subscribe event h True b"

text \<open>
  The loop of \<open>emit\<close> over the subscriptions of the event: the handler is called inside
  \<open>try\<close>; the id of a once-subscription is pushed onto \<open>toRemove\<close> after the call, still
  inside \<open>try\<close>; \<open>catch\<close> writes to the console. The result is the effects in order and
  \<open>toRemove\<close>.
\<close>

fun run_handlers :: "string \<Rightarrow> payload \<Rightarrow> Subscription list \<Rightarrow> effect list \<times> nat list" where
  "run_handlers event d [] = ([], [])"
| "run_handlers event d (s # subs) =
    (let (effs, rm) = run_handlers event d subs
     in case sub_handler s d of
          None \<Rightarrow> (Invoke (sub_id s) event d # effs, if once s then sub_id s # rm else rm)
        | Some e \<Rightarrow>
            (Invoke (sub_id s) event d # Console Err (''[EventBus] Error in handler for '' @ event) # effs,
             rm))"

text \<open>
  \<open>emit\<close>: nothing but the debug line when the event has no list; otherwise the loop,
  and after it the list without the subscriptions on \<open>toRemove\<close>, written back only
  when \<open>toRemove\<close> is not empty. \<open>emitAsync\<close> is not modelled.
\<close>

definition EventBus_emit :: "string \<Rightarrow> payload \<Rightarrow> EventBus \<Rightarrow> effect list \<times> EventBus" where
  "EventBus_emit event d b =
    (let pre = (if bus_debug b then [Console Log (''[EventBus] emit: '' @ event)] else [])
     in case map_of (subscriptions b) event of
          None \<Rightarrow> (pre, b)
        | Some subs \<Rightarrow>
            (let (effs, toRemove) = run_handlers event d subs
             in (pre @ effs,
                 if length toRemove > 0
                 then b\<lparr>subscriptions :=
                        AList.update event (filter (\<lambda>s. sub_id s \<notin> set toRemove) subs) (subscriptions b)\<rparr>
                 else b)))"

definition off :: "string \<Rightarrow> EventBus \<Rightarrow> EventBus" where
  "off event b = b\<lparr>subscriptions := AList.delete event (subscriptions b)\<rparr>"

definition clear :: "EventBus \<Rightarrow> EventBus" where
  "clear b = b\<lparr>subscriptions := []\<rparr>"

definition listenerCount :: "string \<Rightarrow> EventBus \<Rightarrow> nat" where
  "listenerCount event b = (case map_of (subscriptions b) event of None \<Rightarrow> 0 | Some l \<Rightarrow> length l)"

text \<open>The subscriptions of an event, in registration order.\<close>

definition subscribers :: "string \<Rightarrow> EventBus \<Rightarrow> Subscription list" where
  "subscribers event b = (case map_of (subscriptions b) event of None \<Rightarrow> [] | Some l \<Rightarrow> l)"

text \<open>The effects that are calls of handlers.\<close>

fun is_Invoke :: "effect \<Rightarrow> bool" where
  "is_Invoke (Invoke _ _ _) = True"
| "is_Invoke _ = False"

section \<open>State store: tabs\<close>

text \<open>
  \<open>state/index.ts\<close>. Only the \<open>shell\<close> slice of the store is written by the tab actions;
  the other fields of the shell (\<open>config\<close>, \<open>navItems\<close>) and of the store live in the
  record extensions and are carried over unchanged, as the spreads of the source do.
\<close>

record Tabs =
  items :: "TabInfo list"
  activeId :: "string option"

record Shell =
  tabs :: Tabs
  sidebarCollapsed :: bool

record LookingGlassState =
  shell :: Shell

definition openTab ::
  "TabInfo \<Rightarrow> 'a LookingGlassState_scheme \<Rightarrow> EventBus
    \<Rightarrow> 'a LookingGlassState_scheme \<times> effect list \<times> EventBus" where
  "openTab tab st b =
    (st\<lparr>shell := (shell st)\<lparr>tabs :=
        \<lparr>items = filter (\<lambda>t. tab_id t \<noteq> tab_id tab) (items (tabs (shell st))) @ [tab],
         activeId = Some (tab_id tab)\<rparr>\<rparr>\<rparr>,
     EventBus_emit ''shell:tab:opened'' (TabOpened tab) b)"

definition closeTab ::
  "string \<Rightarrow> 'a LookingGlassState_scheme \<Rightarrow> EventBus
    \<Rightarrow> 'a LookingGlassState_scheme \<times> effect list \<times> EventBus" where
  "closeTab i st b =
    (let tbs = tabs (shell st);
         remaining = filter (\<lambda>t. tab_id t \<noteq> i) (items tbs);
         newActiveId = (if activeId tbs = Some i
                        then (case remaining of [] \<Rightarrow> None | t # _ \<Rightarrow> Some (tab_id t))
                        else activeId tbs)
     in (st\<lparr>shell := (shell st)\<lparr>tabs := \<lparr>items = remaining, activeId = newActiveId\<rparr>\<rparr>\<rparr>,
         EventBus_emit ''shell:tab:closed'' (IdOnly i) b))"

definition activateTab ::
  "string \<Rightarrow> 'a LookingGlassState_scheme \<Rightarrow> EventBus
    \<Rightarrow> 'a LookingGlassState_scheme \<times> effect list \<times> EventBus" where
  "activateTab i st b =
    (st\<lparr>shell := (shell st)\<lparr>tabs := (tabs (shell st))\<lparr>activeId := Some i\<rparr>\<rparr>\<rparr>,
     EventBus_emit ''shell:tab:activated'' (IdOnly i) b)"

section \<open>MCP server: the dispatcher\<close>

text \<open>
  \<open>types/index.ts\<close>: a tool handler is \<open>(params) => Promise<ToolResult>\<close>. It is modelled
  by how the awaited call ends: \<open>Inr r\<close> when the promise resolves with \<open>r\<close>, \<open>Inl e\<close> when
  the call throws or the promise rejects with \<open>e\<close>. A handler whose promise never settles
  is outside this model.
\<close>

type_synonym ToolHandler = "json \<Rightarrow> thrown + ToolResult"

text \<open>
  A tool definition is a JavaScript object and the registry stores the object itself,
  which the caller still holds: objects live in a store and are named by references.
  Every field may be absent, as in the object of a \<open>ToolBuilder\<close>
  (\<open>Partial<ToolDefinition>\<close>, returned by \<open>build\<close> under the type \<open>ToolDefinition\<close>).
\<close>

type_synonym ref = nat

record ToolDefinition =
  tool_name :: "string option"
  description :: "string option"
  inputSchema :: "json option"
  handler :: "ToolHandler option"

type_synonym heap = "ref \<Rightarrow> ToolDefinition"

text \<open>The object \<open>{}\<close>.\<close>

definition empty_object :: ToolDefinition where
  "empty_object = \<lparr>tool_name = None, description = None, inputSchema = None, handler = None\<rparr>"

text \<open>A name inside a template string: \<open>undefined\<close> prints as such.\<close>

definition show_name :: "string option \<Rightarrow> string" where
  "show_name n = (case n of None \<Rightarrow> ''undefined'' | Some str \<Rightarrow> str)"

record ResourceDefinition =
  uri :: string
  res_name :: string
  res_description :: string
  mimeType :: "string option"

type_synonym ResourceHandler = "string \<Rightarrow> thrown + json"

text \<open>
  The attached transport, as the server uses it: \<open>sendNotification\<close> returns or throws.
\<close>

record Transport =
  sendNotification :: "Notification \<Rightarrow> thrown option"

text \<open>
  The three registries are JavaScript \<open>Map\<close>s: association lists in insertion order,
  where \<open>set\<close> on a present key replaces the value in place (\<open>AList.update\<close>) and
  \<open>delete\<close> removes the entry (\<open>AList.delete\<close>). The values of \<open>tools\<close> are references to
  the registered objects, and a key is the \<open>name\<close> the object had when it was registered
  (\<open>None\<close> for \<open>undefined\<close>). \<open>objects\<close> is no field of the class: it is the store that
  holds the tool objects, every one of them \<open>{}\<close> before a caller writes it.
\<close>

record MCPServer =
  tools :: "(string option \<times> ref) list"
  resources :: "(string \<times> ResourceDefinition) list"
  resourceHandlers :: "(string \<times> ResourceHandler) list"
  transport :: "Transport option"
  debug :: bool
  eventBus :: EventBus
  objects :: heap

definition new_MCPServer :: "bool \<Rightarrow> EventBus \<Rightarrow> MCPServer" where
  "new_MCPServer dbg b =
    \<lparr>tools = [], resources = [], resourceHandlers = [], transport = None, debug = dbg, eventBus = b,
     objects = (\<lambda>r. empty_object)\<rparr>"

text \<open>
  A caller writes the fields of an object it holds: one it has made, or one it has
  registered before.
\<close>

definition assign :: "ref \<Rightarrow> ToolDefinition \<Rightarrow> MCPServer \<Rightarrow> MCPServer" where
  "assign r d s = s\<lparr>objects := (objects s)(r := d)\<rparr>"

text \<open>\<open>registerTool\<close> is given the reference; it reads the name once and stores the reference.\<close>

definition registerTool :: "ref \<Rightarrow> MCPServer \<Rightarrow> effect list \<times> MCPServer" where
  "registerTool r s =
    (let tool = objects s r
     in ((if map_of (tools s) (tool_name tool) \<noteq> None
          then [Console Warn (''[MCP] Tool already registered: '' @ show_name (tool_name tool) @ '', replacing'')]
          else [])
         @ (if debug s then [Console Log (''[MCP] Registered tool: '' @ show_name (tool_name tool))] else []),
         s\<lparr>tools := AList.update (tool_name tool) r (tools s)\<rparr>))"

definition unregisterTool :: "string \<Rightarrow> MCPServer \<Rightarrow> effect list \<times> MCPServer" where
  "unregisterTool nm s =
    (if debug s then [Console Log (''[MCP] Unregistered tool: '' @ nm)] else [],
     s\<lparr>tools := AList.delete (Some nm) (tools s)\<rparr>)"

text \<open>\<open>getTool\<close> and \<open>listTools\<close> return the stored objects as they are now.\<close>

definition getTool :: "string \<Rightarrow> MCPServer \<Rightarrow> ToolDefinition option" where
  "getTool nm s = map_option (objects s) (map_of (tools s) (Some nm))"

definition listTools :: "MCPServer \<Rightarrow> ToolDefinition list" where
  "listTools s = map (\<lambda>(k, r). objects s r) (tools s)"

text \<open>The object literal \<open>{success: false, error: msg}\<close>.\<close>

definition failure :: "string \<Rightarrow> ToolResult" where
  "failure msg = \<lparr>success = False, data = None, error = Some msg\<rparr>"

text \<open>
  \<open>error instanceof Error ? error.message : String(error)\<close>: the message, or \<open>Inl e\<close> when
  the conversion itself throws \<open>e\<close>.
\<close>

fun message_of :: "thrown \<Rightarrow> thrown + string" where
  "message_of (Error m) = Inr m"
| "message_of (NonError str) = Inr str"
| "message_of (Unconvertible e) = Inl e"

text \<open>
  \<open>callTool\<close>. The result is \<open>Inl e\<close> when the call would reject with \<open>e\<close>, \<open>Inr r\<close> when
  it resolves with \<open>r\<close>. The \<open>try\<close> block is the \<open>Inr\<close> branch of the handler's outcome,
  the \<open>catch\<close> block its \<open>Inl\<close> branch. The conversion of the caught value is the first
  statement of the \<open>catch\<close> block and stands in no \<open>try\<close>: what it throws leaves
  \<open>callTool\<close>, before the result event is emitted.
\<close>

definition callTool ::
  "string \<Rightarrow> json \<Rightarrow> MCPServer \<Rightarrow> (thrown + ToolResult) \<times> effect list \<times> MCPServer" where
  "callTool nm params s =
    (case map_of (tools s) (Some nm) of
       None \<Rightarrow> (Inr (failure (''Tool not found: '' @ nm)), [], s)
     | Some r \<Rightarrow>
        (case handler (objects s r) of
           None \<Rightarrow> (Inr (failure (''Tool has no handler: '' @ nm)), [], s)
         | Some h \<Rightarrow>
            (let (e1, b1) = EventBus_emit ''mcp:tool:call'' (ToolCall nm params) (eventBus s);
                 dbg = (if debug s then [Console Log (''[MCP] Calling tool: '' @ nm)] else [])
             in case h params of
                  Inr result \<Rightarrow>
                    (let (e2, b2) = EventBus_emit ''mcp:tool:result'' (ToolResultOf nm params result) b1
                     in (Inr result, e1 @ dbg @ e2, s\<lparr>eventBus := b2\<rparr>))
                | Inl err \<Rightarrow>
                    (case message_of err of
                       Inl thrown_again \<Rightarrow> (Inl thrown_again, e1 @ dbg, s\<lparr>eventBus := b1\<rparr>)
                     | Inr msg \<Rightarrow>
                         (let errorResult = failure msg;
                              (e2, b2) = EventBus_emit ''mcp:tool:result''
                                           (ToolResultOf nm params errorResult) b1
                          in (Inr errorResult, e1 @ dbg @ e2, s\<lparr>eventBus := b2\<rparr>))))))"

definition registerResource ::
  "ResourceDefinition \<Rightarrow> ResourceHandler \<Rightarrow> MCPServer \<Rightarrow> effect list \<times> MCPServer" where
  "registerResource resource h s =
    (if debug s then [Console Log (''[MCP] Registered resource: '' @ uri resource)] else [],
     s\<lparr>resources := AList.update (uri resource) resource (resources s),
       resourceHandlers := AList.update (uri resource) h (resourceHandlers s)\<rparr>)"

definition unregisterResource :: "string \<Rightarrow> MCPServer \<Rightarrow> effect list \<times> MCPServer" where
  "unregisterResource u s =
    (if debug s then [Console Log (''[MCP] Unregistered resource: '' @ u)] else [],
     s\<lparr>resources := AList.delete u (resources s),
       resourceHandlers := AList.delete u (resourceHandlers s)\<rparr>)"

definition listResources :: "MCPServer \<Rightarrow> ResourceDefinition list" where
  "listResources s = map snd (resources s)"

text \<open>\<open>pattern.replace(/\*$/, '')\<close>: one asterisk at the very end is dropped.\<close>

definition strip_wildcard :: "string \<Rightarrow> string" where
  "strip_wildcard pattern =
    (if pattern \<noteq> [] \<and> last pattern = CHR ''*'' then butlast pattern else pattern)"

definition startsWith :: "string \<Rightarrow> string \<Rightarrow> bool" where
  "startsWith str p = (take (length p) str = p)"

text \<open>
  The \<open>for ... of\<close> loop over the entries of \<open>resourceHandlers\<close>, left at the first
  pattern that matches.
\<close>

fun scan_patterns :: "string \<Rightarrow> (string \<times> ResourceHandler) list \<Rightarrow> ResourceHandler option" where
  "scan_patterns u [] = None"
| "scan_patterns u ((pattern, h) # rest) =
    (if startsWith u (strip_wildcard pattern) then Some h else scan_patterns u rest)"

definition readResource ::
  "string \<Rightarrow> MCPServer \<Rightarrow> (thrown + json) \<times> effect list \<times> MCPServer" where
  "readResource u s =
    (let h0 = map_of (resourceHandlers s) u;
         h1 = (case h0 of None \<Rightarrow> scan_patterns u (resourceHandlers s) | Some h \<Rightarrow> Some h)
     in case h1 of
          None \<Rightarrow> (Inl (Error (''Resource not found: '' @ u)), [], s)
        | Some h \<Rightarrow>
            (let (e1, b1) = EventBus_emit ''mcp:resource:read'' (ResourceRead u) (eventBus s);
                 dbg = (if debug s then [Console Log (''[MCP] Reading resource: '' @ u)] else [])
             in (h u, e1 @ dbg, s\<lparr>eventBus := b1\<rparr>)))"

text \<open>
  \<open>MCPServer.emit\<close>; \<open>now\<close> is the value of \<open>Date.now()\<close>. When the transport's
  \<open>sendNotification\<close> throws, the exception leaves \<open>emit\<close> before the debug line.
\<close>

definition enrich :: "int \<Rightarrow> Notification \<Rightarrow> Notification" where
  "enrich now n = n\<lparr>timestamp := Some (case timestamp n of None \<Rightarrow> now | Some t \<Rightarrow> t)\<rparr>"

definition MCPServer_emit ::
  "int \<Rightarrow> Notification \<Rightarrow> MCPServer \<Rightarrow> (thrown + unit) \<times> effect list \<times> MCPServer" where
  "MCPServer_emit now n s =
    (let enrichedNotification = enrich now n;
         (e1, b1) = EventBus_emit ''mcp:notification'' (Notify enrichedNotification) (eventBus s);
         s1 = s\<lparr>eventBus := b1\<rparr>;
         dbg = (if debug s then [Console Log (''[MCP] Emitted notification: '' @ n_type n)] else [])
     in case transport s of
          None \<Rightarrow> (Inr (), e1 @ dbg, s1)
        | Some t \<Rightarrow>
            (case sendNotification t enrichedNotification of
               Some e \<Rightarrow> (Inl e, e1 @ [Send enrichedNotification], s1)
             | None \<Rightarrow> (Inr (), e1 @ [Send enrichedNotification] @ dbg, s1)))"

definition setTransport :: "Transport \<Rightarrow> MCPServer \<Rightarrow> MCPServer" where
  "setTransport t s = s\<lparr>transport := Some t\<rparr>"

text \<open>
  \<open>ToolBuilder\<close>. The builder holds one object, made by its constructor (under a
  reference that nothing else uses); the setters write its fields; \<open>build\<close> throws when
  name or description is missing or empty, fills in a missing schema, and returns the
  reference of that same object, every time it is called.
\<close>

record ToolBuilder =
  builder_tool :: ref

definition new_ToolBuilder :: "ref \<Rightarrow> heap \<Rightarrow> ToolBuilder \<times> heap" where
  "new_ToolBuilder r h = (\<lparr>builder_tool = r\<rparr>, h(r := empty_object))"

definition builder_name :: "string \<Rightarrow> ToolBuilder \<Rightarrow> heap \<Rightarrow> heap" where
  "builder_name n b h = h(builder_tool b := (h (builder_tool b))\<lparr>tool_name := Some n\<rparr>)"

definition builder_description :: "string \<Rightarrow> ToolBuilder \<Rightarrow> heap \<Rightarrow> heap" where
  "builder_description d b h = h(builder_tool b := (h (builder_tool b))\<lparr>description := Some d\<rparr>)"

definition builder_input :: "json \<Rightarrow> ToolBuilder \<Rightarrow> heap \<Rightarrow> heap" where
  "builder_input schema b h = h(builder_tool b := (h (builder_tool b))\<lparr>inputSchema := Some schema\<rparr>)"

definition builder_handler :: "ToolHandler \<Rightarrow> ToolBuilder \<Rightarrow> heap \<Rightarrow> heap" where
  "builder_handler f b h = h(builder_tool b := (h (builder_tool b))\<lparr>handler := Some f\<rparr>)"

text \<open>\<open>!x\<close> for a string that may be absent.\<close>

definition falsy :: "string option \<Rightarrow> bool" where
  "falsy x = (case x of None \<Rightarrow> True | Some str \<Rightarrow> str = [])"

definition build :: "ToolBuilder \<Rightarrow> heap \<Rightarrow> (thrown + ref) \<times> heap" where
  "build b h =
    (let r = builder_tool b
     in if falsy (tool_name (h r)) then (Inl (Error ''Tool name is required''), h)
        else if falsy (description (h r)) then (Inl (Error ''Tool description is required''), h)
        else (Inr r,
              if inputSchema (h r) = None
              then h(r := (h r)\<lparr>inputSchema :=
                     Some (JObj [(''type'', JStr ''object''), (''properties'', JObj [])])\<rparr>)
              else h))"

text \<open>\<open>server.registerTool(builder.build())\<close>\<close>

definition register_built :: "ToolBuilder \<Rightarrow> MCPServer \<Rightarrow> MCPServer" where
  "register_built b s =
    (case build b (objects s) of
       (Inl e, h) \<Rightarrow> s\<lparr>objects := h\<rparr>
     | (Inr r, h) \<Rightarrow> snd (registerTool r (s\<lparr>objects := h\<rparr>)))"

text \<open>
  The calls a client of the server can make, and the server after a sequence of them,
  starting from a fresh one. \<open>Assign\<close> is the client writing an object it holds.
  \<open>start\<close>, \<open>stop\<close> and \<open>getServerInfo\<close> write none of the registries and are left out.
\<close>

datatype server_call =
    Assign ref ToolDefinition
  | RegisterTool ref
  | UnregisterTool string
  | CallTool string json
  | RegisterResource ResourceDefinition ResourceHandler
  | UnregisterResource string
  | ReadResource string
  | Emit int Notification
  | SetTransport Transport

fun server_step :: "server_call \<Rightarrow> MCPServer \<Rightarrow> MCPServer" where
  "server_step (Assign r d) s = assign r d s"
| "server_step (RegisterTool r) s = snd (registerTool r s)"
| "server_step (UnregisterTool nm) s = snd (unregisterTool nm s)"
| "server_step (CallTool nm params) s = snd (snd (callTool nm params s))"
| "server_step (RegisterResource r h) s = snd (registerResource r h s)"
| "server_step (UnregisterResource u) s = snd (unregisterResource u s)"
| "server_step (ReadResource u) s = snd (snd (readResource u s))"
| "server_step (Emit now n) s = snd (snd (MCPServer_emit now n s))"
| "server_step (SetTransport t) s = setTransport t s"

fun server_run :: "server_call list \<Rightarrow> MCPServer \<Rightarrow> MCPServer" where
  "server_run [] s = s"
| "server_run (c # cs) s = server_run cs (server_step c s)"

text \<open>
  Every registered object still has the name it was registered under. The code does
  not keep this: it holds while the callers leave the names of registered objects alone.
\<close>

definition names_intact :: "MCPServer \<Rightarrow> bool" where
  "names_intact s = list_all (\<lambda>(k, r). tool_name (objects s r) = k) (tools s)"

text \<open>
  A sequence of calls in which no object is given another name while it is registered.
\<close>

fun keeps_name :: "server_call \<Rightarrow> MCPServer \<Rightarrow> bool" where
  "keeps_name (Assign r d) s = (r \<notin> snd ` set (tools s) \<or> tool_name d = tool_name (objects s r))"
| "keeps_name c s = True"

fun keeps_names :: "server_call list \<Rightarrow> MCPServer \<Rightarrow> bool" where
  "keeps_names [] s = True"
| "keeps_names (c # cs) s = (keeps_name c s \<and> keeps_names cs (server_step c s))"

section \<open>Transports\<close>

text \<open>
  \<open>transports/index.ts\<close>. The browser objects the transports drive (a \<open>WebSocket\<close>, an
  \<open>EventSource\<close>, the timers of \<open>setTimeout\<close>) are modelled by the callbacks the
  source installs on them: an event of the model is one call of a method by the client,
  one call of an installed callback by the browser, or the passing of time, which runs
  the timer callbacks that have fallen due.
\<close>

datatype ready_state = CONNECTING | OPEN | CLOSING | CLOSED

text \<open>How the promise of an outbound call is settled: by \<open>resolve\<close> or by \<open>reject\<close>.\<close>

datatype settlement = Resolved "json option" | Rejected string

text \<open>
  The objects given to \<open>socket.send\<close>: \<open>{type, id, data}\<close> of an outbound call with id
  \<open>req_<n>\<close>, \<open>{type: 'response', id, result}\<close> or \<open>{type: 'response', id, error}\<close>, and
  \<open>{type: 'notification', data}\<close>.
\<close>

datatype frame =
    RequestFrame string nat json
  | ResponseFrame string "json option" "string option"
  | NotificationFrame Notification

text \<open>
  The text handed to \<open>handleMessage\<close>, after \<open>JSON.parse\<close>: text that does not parse, a
  response (id, result, error), a tool call (id, tool, params), a resource read
  (id, uri), a notification, or a message of another type. The id of a response is the
  number \<open>n\<close> of \<open>req_<n>\<close>; an id of another form matches no pending request, like a
  number that was never issued.
\<close>

datatype inbound =
    Unparsable
  | InResponse nat "json option" "string option"
  | InToolCall string string json
  | InResourceRead string string
  | InNotification json
  | InUnknown string

datatype timer = RequestTimeout nat | ReconnectTimer

text \<open>
  The lines the transports write to the console: \<open>WebSocket connected\<close> or
  \<open>SSE connected\<close>, \<open>WebSocket error\<close> or \<open>SSE error\<close>, \<open>Disconnected\<close>,
  \<open>Cannot send: not connected\<close>, \<open>Received notification\<close>, \<open>Unknown message type\<close>,
  \<open>Failed to handle message\<close>, \<open>Failed to parse notification\<close>,
  \<open>Max reconnect attempts reached\<close> and \<open>Reconnecting (attempt n)...\<close>.
\<close>

datatype tline =
    LineConnected
  | LineError
  | LineDisconnected
  | LineCannotSend
  | LineNotification
  | LineUnknownType string
  | LineFailedMessage
  | LineFailedParse
  | LineMaxReached
  | LineReconnecting nat

text \<open>
  The fields of \<open>WebSocketTransport\<close> (with those of \<open>BaseTransport\<close> and the two options
  the class reads), followed by the world around it: the clock in milliseconds, the
  pending timers with their due times, every call of a \<open>resolve\<close> or \<open>reject\<close> of an
  outbound call's promise, the frames sent, and the console. \<open>socket\<close> holds the ready
  state of \<open>this.socket\<close>, \<open>None\<close> for \<open>null\<close>. \<open>pendingRequests\<close> is the list of the keys
  of the \<open>Map\<close> in insertion order: the value stored under the id \<open>req_<n>\<close> is always the
  pair of continuations of the promise made by the same call of \<open>request\<close>, which the
  model names by the same number \<open>n\<close>.
\<close>

record WebSocketTransport =
  connected :: bool
  toolCallHandler :: "(string \<Rightarrow> json \<Rightarrow> thrown + json) option"
  resourceReadHandler :: "(string \<Rightarrow> thrown + json) option"
  reconnectInterval :: nat
  maxReconnectAttempts :: nat
  socket :: "ready_state option"
  reconnectAttempts :: nat
  pendingRequests :: "nat list"
  requestCounter :: nat
  clock :: nat
  timers :: "(nat \<times> timer) list"
  settled :: "(nat \<times> settlement) list"
  sent :: "frame list"
  console :: "tline list"

text \<open>The constructor: the defaults \<open>5000\<close> and \<open>10\<close>, overridden by the options given.\<close>

definition new_WebSocketTransport :: "nat option \<Rightarrow> nat option \<Rightarrow> WebSocketTransport" where
  "new_WebSocketTransport interval maxAttempts =
    \<lparr>connected = False, toolCallHandler = None, resourceReadHandler = None,
     reconnectInterval = (case interval of None \<Rightarrow> 5000 | Some i \<Rightarrow> i),
     maxReconnectAttempts = (case maxAttempts of None \<Rightarrow> 10 | Some m \<Rightarrow> m),
     socket = None, reconnectAttempts = 0, pendingRequests = [], requestCounter = 0,
     clock = 0, timers = [], settled = [], sent = [], console = []\<rparr>"

definition say :: "tline \<Rightarrow> WebSocketTransport \<Rightarrow> WebSocketTransport" where
  "say l w = w\<lparr>console := console w @ [l]\<rparr>"

definition send :: "frame \<Rightarrow> WebSocketTransport \<Rightarrow> WebSocketTransport" where
  "send message w =
    (if socket w = Some OPEN then w\<lparr>sent := sent w @ [message]\<rparr> else say LineCannotSend w)"

text \<open>
  \<open>connect\<close> creates a socket unless connected; the promise it returns is not part of
  the model. \<open>onopen\<close>, \<open>onerror\<close> and \<open>onclose\<close> are the callbacks it installs.
\<close>

definition connect :: "WebSocketTransport \<Rightarrow> WebSocketTransport" where
  "connect w = (if connected w then w else w\<lparr>socket := Some CONNECTING\<rparr>)"

definition reconnect :: "WebSocketTransport \<Rightarrow> WebSocketTransport" where
  "reconnect w =
    (if reconnectAttempts w \<ge> maxReconnectAttempts w then say LineMaxReached w
     else (let n = Suc (reconnectAttempts w)
           in (say (LineReconnecting n) (w\<lparr>reconnectAttempts := n\<rparr>))
                \<lparr>timers := timers w @ [(clock w + reconnectInterval w, ReconnectTimer)]\<rparr>))"

definition onopen :: "WebSocketTransport \<Rightarrow> WebSocketTransport" where
  "onopen w = say LineConnected (w\<lparr>connected := True, reconnectAttempts := 0\<rparr>)"

definition onerror :: "WebSocketTransport \<Rightarrow> WebSocketTransport" where
  "onerror w = say LineError w"

definition onclose :: "WebSocketTransport \<Rightarrow> WebSocketTransport" where
  "onclose w = (if connected w then reconnect (w\<lparr>connected := False\<rparr>) else w)"

definition disconnect :: "WebSocketTransport \<Rightarrow> WebSocketTransport" where
  "disconnect w = say LineDisconnected (w\<lparr>socket := None, connected := False, pendingRequests := []\<rparr>)"

definition ws_sendNotification :: "Notification \<Rightarrow> WebSocketTransport \<Rightarrow> WebSocketTransport" where
  "ws_sendNotification n w = send (NotificationFrame n) w"

text \<open>
  \<open>request\<close>: the id is the incremented counter; the promise's continuations are stored
  under it, the frame is sent, and the timeout is set to 30 seconds from now. The
  result is the id with the new state.
\<close>

definition request :: "string \<Rightarrow> json \<Rightarrow> WebSocketTransport \<Rightarrow> nat \<times> WebSocketTransport" where
  "request ty d w =
    (let i = Suc (requestCounter w);
         w1 = w\<lparr>requestCounter := i, pendingRequests := (if i \<in> set (pendingRequests w) then pendingRequests w
                                     else pendingRequests w @ [i])\<rparr>;
         w2 = send (RequestFrame ty i d) w1
     in (i, w2\<lparr>timers := timers w2 @ [(clock w2 + 30000, RequestTimeout i)]\<rparr>))"

text \<open>The callback of the timeout set by \<open>request\<close>.\<close>

definition request_timeout :: "nat \<Rightarrow> WebSocketTransport \<Rightarrow> WebSocketTransport" where
  "request_timeout i w =
    (if i \<in> set (pendingRequests w)
     then w\<lparr>pendingRequests := removeAll i (pendingRequests w),
            settled := settled w @ [(i, Rejected ''Request timeout'')]\<rparr>
     else w)"

definition ws_callTool :: "string \<Rightarrow> json \<Rightarrow> WebSocketTransport \<Rightarrow> nat \<times> WebSocketTransport" where
  "ws_callTool tool params w = request ''tool_call'' (JObj [(''tool'', JStr tool), (''params'', params)]) w"

definition ws_readResource :: "string \<Rightarrow> WebSocketTransport \<Rightarrow> nat \<times> WebSocketTransport" where
  "ws_readResource u w = request ''resource_read'' (JObj [(''uri'', JStr u)]) w"

text \<open>\<open>if (message.error)\<close>: an error that is present and not the empty string.\<close>

definition handleResponse ::
  "nat \<Rightarrow> json option \<Rightarrow> string option \<Rightarrow> WebSocketTransport \<Rightarrow> WebSocketTransport" where
  "handleResponse i result err w =
    (if i \<in> set (pendingRequests w)
     then (let w1 = w\<lparr>pendingRequests := removeAll i (pendingRequests w)\<rparr>
           in case err of
                None \<Rightarrow> w1\<lparr>settled := settled w1 @ [(i, Resolved result)]\<rparr>
              | Some e \<Rightarrow>
                  (if e = [] then w1\<lparr>settled := settled w1 @ [(i, Resolved result)]\<rparr>
                   else w1\<lparr>settled := settled w1 @ [(i, Rejected e)]\<rparr>))
     else w)"

text \<open>
  \<open>String(error)\<close>, and the two inbound calls. The inbound handler is awaited in the
  source; the model lets it complete within the event that delivers the message. When
  \<open>String(error)\<close> throws inside \<open>catch\<close>, the promise of the inbound call rejects, which
  nothing awaits, and no response is sent.
\<close>

fun String_of :: "thrown \<Rightarrow> thrown + string" where
  "String_of (Error m) = Inr (''Error: '' @ m)"
| "String_of (NonError str) = Inr str"
| "String_of (Unconvertible e) = Inl e"

definition handleToolCall :: "string \<Rightarrow> string \<Rightarrow> json \<Rightarrow> WebSocketTransport \<Rightarrow> WebSocketTransport" where
  "handleToolCall mid tool params w =
    (case toolCallHandler w of
       None \<Rightarrow> send (ResponseFrame mid None (Some ''No tool handler registered'')) w
     | Some h \<Rightarrow>
         (case h tool params of
            Inr result \<Rightarrow> send (ResponseFrame mid (Some result) None) w
          | Inl e \<Rightarrow>
              (case String_of e of
                 Inr str \<Rightarrow> send (ResponseFrame mid None (Some str)) w
               | Inl thrown_again \<Rightarrow> w)))"

definition handleResourceRead :: "string \<Rightarrow> string \<Rightarrow> WebSocketTransport \<Rightarrow> WebSocketTransport" where
  "handleResourceRead mid u w =
    (case resourceReadHandler w of
       None \<Rightarrow> send (ResponseFrame mid None (Some ''No resource handler registered'')) w
     | Some h \<Rightarrow>
         (case h u of
            Inr result \<Rightarrow> send (ResponseFrame mid (Some result) None) w
          | Inl e \<Rightarrow>
              (case String_of e of
                 Inr str \<Rightarrow> send (ResponseFrame mid None (Some str)) w
               | Inl thrown_again \<Rightarrow> w)))"

fun handleMessage :: "inbound \<Rightarrow> WebSocketTransport \<Rightarrow> WebSocketTransport" where
  "handleMessage Unparsable w = say LineFailedMessage w"
| "handleMessage (InResponse i result err) w = handleResponse i result err w"
| "handleMessage (InToolCall mid tool params) w = handleToolCall mid tool params w"
| "handleMessage (InResourceRead mid u) w = handleResourceRead mid u w"
| "handleMessage (InNotification d) w = say LineNotification w"
| "handleMessage (InUnknown ty) w = say (LineUnknownType ty) w"

text \<open>
  Time. A timer callback is the timeout of a request or the \<open>connect\<close> of a scheduled
  reconnect. When time passes, the timers that have fallen due are taken off the list
  and run in the order of their due times; none of the callbacks sets a timer.
\<close>

fun fire :: "timer \<Rightarrow> WebSocketTransport \<Rightarrow> WebSocketTransport" where
  "fire (RequestTimeout i) w = request_timeout i w"
| "fire ReconnectTimer w = connect w"

fun fire_all :: "(nat \<times> timer) list \<Rightarrow> WebSocketTransport \<Rightarrow> WebSocketTransport" where
  "fire_all [] w = w"
| "fire_all ((due, t) # ts) w = fire_all ts (fire t w)"

definition elapse :: "nat \<Rightarrow> WebSocketTransport \<Rightarrow> WebSocketTransport" where
  "elapse dt w =
    (let now = clock w + dt;
         due = filter (\<lambda>(d, t). d \<le> now) (timers w);
         later = filter (\<lambda>(d, t). \<not> d \<le> now) (timers w)
     in fire_all (sort_key fst due) (w\<lparr>clock := now, timers := later\<rparr>))"

text \<open>
  The events of a run. The socket events also move the ready state of the current
  socket, as the browser does before it calls the callback.
\<close>

datatype ws_event =
    Connect
  | Disconnect
  | OnToolCall "string \<Rightarrow> json \<Rightarrow> thrown + json"
  | OnResourceRead "string \<Rightarrow> thrown + json"
  | CallToolOut string json
  | ReadResourceOut string
  | SendNotification Notification
  | SockOpen
  | SockError
  | SockClose
  | SockMessage inbound
  | Elapse nat

fun ws_step :: "ws_event \<Rightarrow> WebSocketTransport \<Rightarrow> WebSocketTransport" where
  "ws_step Connect w = connect w"
| "ws_step Disconnect w = disconnect w"
| "ws_step (OnToolCall h) w = w\<lparr>toolCallHandler := Some h\<rparr>"
| "ws_step (OnResourceRead h) w = w\<lparr>resourceReadHandler := Some h\<rparr>"
| "ws_step (CallToolOut tool params) w = snd (ws_callTool tool params w)"
| "ws_step (ReadResourceOut u) w = snd (ws_readResource u w)"
| "ws_step (SendNotification n) w = ws_sendNotification n w"
| "ws_step SockOpen w = onopen (w\<lparr>socket := map_option (\<lambda>_. OPEN) (socket w)\<rparr>)"
| "ws_step SockError w = onerror w"
| "ws_step SockClose w = onclose (w\<lparr>socket := map_option (\<lambda>_. CLOSED) (socket w)\<rparr>)"
| "ws_step (SockMessage m) w = handleMessage m w"
| "ws_step (Elapse dt) w = elapse dt w"

fun ws_run :: "ws_event list \<Rightarrow> WebSocketTransport \<Rightarrow> WebSocketTransport" where
  "ws_run [] w = w"
| "ws_run (e # es) w = ws_run es (ws_step e w)"

text \<open>The calls of \<open>resolve\<close> and \<open>reject\<close> made so far for one promise.\<close>

definition settlements_of :: "nat \<Rightarrow> WebSocketTransport \<Rightarrow> settlement list" where
  "settlements_of p w = map snd (filter (\<lambda>(q, s). q = p) (settled w))"

text \<open>A request that is no longer pending after its id was issued.\<close>

definition gone :: "nat \<Rightarrow> WebSocketTransport \<Rightarrow> bool" where
  "gone i w = (i \<le> requestCounter w \<and> i \<notin> set (pendingRequests w))"

text \<open>The time that passes in a sequence of events.\<close>

fun elapsed :: "ws_event list \<Rightarrow> nat" where
  "elapsed [] = 0"
| "elapsed (Elapse dt # es) = dt + elapsed es"
| "elapsed (e # es) = elapsed es"

text \<open>A response that carries the id of the request.\<close>

fun answers :: "nat \<Rightarrow> ws_event \<Rightarrow> bool" where
  "answers i (SockMessage (InResponse j r e)) = (j = i)"
| "answers i _ = False"

text \<open>
  A request that waits for its answer: it is pending, its id has been issued, and its
  timeout is set for the time \<open>D\<close>, which has not come, and for no other time.
\<close>

definition awaiting :: "nat \<Rightarrow> nat \<Rightarrow> WebSocketTransport \<Rightarrow> bool" where
  "awaiting i D w =
    (i \<in> set (pendingRequests w) \<and> i \<le> requestCounter w \<and> clock w < D
     \<and> (D, RequestTimeout i) \<in> set (timers w)
     \<and> list_all (\<lambda>(d, t). t \<noteq> RequestTimeout i \<or> d = D) (timers w))"

text \<open>A timeout that belongs to an id not above \<open>n\<close>; a reconnect timer always qualifies.\<close>

fun issued :: "nat \<Rightarrow> timer \<Rightarrow> bool" where
  "issued n (RequestTimeout j) = (j \<le> n)"
| "issued n ReconnectTimer = True"

text \<open>Every timeout that is set belongs to an id that has been issued.\<close>

definition timers_issued :: "WebSocketTransport \<Rightarrow> bool" where
  "timers_issued w = list_all (\<lambda>(d, t). issued (requestCounter w) t) (timers w)"

text \<open>The number of reconnects scheduled so far, and of those still waiting for their timer.\<close>

fun is_reconnecting :: "tline \<Rightarrow> bool" where
  "is_reconnecting (LineReconnecting n) = True"
| "is_reconnecting _ = False"

definition reconnects_started :: "WebSocketTransport \<Rightarrow> nat" where
  "reconnects_started w = length (filter is_reconnecting (console w))"

definition reconnects_waiting :: "WebSocketTransport \<Rightarrow> nat" where
  "reconnects_waiting w = length (filter (\<lambda>(d, t). t = ReconnectTimer) (timers w))"

text \<open>What the reconnect policy reads and writes, and what shows that it scheduled a reconnect.\<close>

definition budget :: "WebSocketTransport \<Rightarrow> nat \<times> nat \<times> nat" where
  "budget w = (reconnectAttempts w, maxReconnectAttempts w, reconnects_started w)"

text \<open>
  \<open>HttpSseTransport\<close>: the connection life cycle. Its outbound calls and the listeners
  for \<open>tool_call\<close> and \<open>resource_read\<close> events go through \<open>fetch\<close> and the inbound
  handlers and touch none of these fields; they are left out. The timers are the due
  times of the scheduled reconnects. \<open>sse_onmessage\<close> is told whether the data parses.
\<close>

record HttpSseTransport =
  sse_connected :: bool
  sse_reconnectInterval :: nat
  sse_maxReconnectAttempts :: nat
  eventSource :: "ready_state option"
  sse_reconnectAttempts :: nat
  sse_clock :: nat
  sse_timers :: "nat list"
  sse_console :: "tline list"

definition new_HttpSseTransport :: "nat option \<Rightarrow> nat option \<Rightarrow> HttpSseTransport" where
  "new_HttpSseTransport interval maxAttempts =
    \<lparr>sse_connected = False,
     sse_reconnectInterval = (case interval of None \<Rightarrow> 5000 | Some i \<Rightarrow> i),
     sse_maxReconnectAttempts = (case maxAttempts of None \<Rightarrow> 10 | Some m \<Rightarrow> m),
     eventSource = None, sse_reconnectAttempts = 0, sse_clock = 0, sse_timers = [], sse_console = []\<rparr>"

definition sse_say :: "tline \<Rightarrow> HttpSseTransport \<Rightarrow> HttpSseTransport" where
  "sse_say l s = s\<lparr>sse_console := sse_console s @ [l]\<rparr>"

definition sse_connect :: "HttpSseTransport \<Rightarrow> HttpSseTransport" where
  "sse_connect s = (if sse_connected s then s else s\<lparr>eventSource := Some CONNECTING\<rparr>)"

definition sse_reconnect :: "HttpSseTransport \<Rightarrow> HttpSseTransport" where
  "sse_reconnect s =
    (if sse_reconnectAttempts s \<ge> sse_maxReconnectAttempts s then sse_say LineMaxReached s
     else (let n = Suc (sse_reconnectAttempts s)
           in (sse_say (LineReconnecting n) (s\<lparr>sse_reconnectAttempts := n\<rparr>))
                \<lparr>sse_timers := sse_timers s @ [sse_clock s + sse_reconnectInterval s]\<rparr>))"

definition sse_onopen :: "HttpSseTransport \<Rightarrow> HttpSseTransport" where
  "sse_onopen s = sse_say LineConnected (s\<lparr>sse_connected := True, sse_reconnectAttempts := 0\<rparr>)"

definition sse_onerror :: "HttpSseTransport \<Rightarrow> HttpSseTransport" where
  "sse_onerror s =
    (let s1 = sse_say LineError s
     in if sse_connected s1 then sse_reconnect (s1\<lparr>sse_connected := False\<rparr>) else s1)"

definition sse_onmessage :: "bool \<Rightarrow> HttpSseTransport \<Rightarrow> HttpSseTransport" where
  "sse_onmessage parses s = sse_say (if parses then LineNotification else LineFailedParse) s"

definition sse_disconnect :: "HttpSseTransport \<Rightarrow> HttpSseTransport" where
  "sse_disconnect s = sse_say LineDisconnected (s\<lparr>eventSource := None, sse_connected := False\<rparr>)"

fun sse_fire_all :: "nat list \<Rightarrow> HttpSseTransport \<Rightarrow> HttpSseTransport" where
  "sse_fire_all [] s = s"
| "sse_fire_all (due # ts) s = sse_fire_all ts (sse_connect s)"

definition sse_elapse :: "nat \<Rightarrow> HttpSseTransport \<Rightarrow> HttpSseTransport" where
  "sse_elapse dt s =
    (let now = sse_clock s + dt;
         due = filter (\<lambda>d. d \<le> now) (sse_timers s);
         later = filter (\<lambda>d. \<not> d \<le> now) (sse_timers s)
     in sse_fire_all (sort due) (s\<lparr>sse_clock := now, sse_timers := later\<rparr>))"

datatype sse_event =
    SseConnect
  | SseDisconnect
  | SseOpen
  | SseError
  | SseMessage bool
  | SseElapse nat

fun sse_step :: "sse_event \<Rightarrow> HttpSseTransport \<Rightarrow> HttpSseTransport" where
  "sse_step SseConnect s = sse_connect s"
| "sse_step SseDisconnect s = sse_disconnect s"
| "sse_step SseOpen s = sse_onopen (s\<lparr>eventSource := map_option (\<lambda>_. OPEN) (eventSource s)\<rparr>)"
| "sse_step SseError s = sse_onerror s"
| "sse_step (SseMessage parses) s = sse_onmessage parses s"
| "sse_step (SseElapse dt) s = sse_elapse dt s"

fun sse_run :: "sse_event list \<Rightarrow> HttpSseTransport \<Rightarrow> HttpSseTransport" where
  "sse_run [] s = s"
| "sse_run (e # es) s = sse_run es (sse_step e s)"

definition sse_reconnects_started :: "HttpSseTransport \<Rightarrow> nat" where
  "sse_reconnects_started s = length (filter is_reconnecting (sse_console s))"

definition sse_budget :: "HttpSseTransport \<Rightarrow> nat \<times> nat \<times> nat" where
  "sse_budget s = (sse_reconnectAttempts s, sse_maxReconnectAttempts s, sse_reconnects_started s)"

text \<open>
  \<open>reconnect\<close> is only called by a transport that was connected, and a connected
  transport has the count 0: the count is 0 while connected and at most 1 otherwise.
\<close>

definition fresh_count :: "WebSocketTransport \<Rightarrow> bool" where
  "fresh_count w = (reconnectAttempts w \<le> (if connected w then 0 else Suc 0))"

definition sse_fresh_count :: "HttpSseTransport \<Rightarrow> bool" where
  "sse_fresh_count s = (sse_reconnectAttempts s \<le> (if sse_connected s then 0 else Suc 0))"

section \<open>Concrete states\<close>

text \<open>A store with three tabs, the first of them active.\<close>

definition tab_of :: "string \<Rightarrow> TabInfo" where
  "tab_of i = \<lparr>tab_id = i, label = i, icon = None, closable = None, content = None\<rparr>"

definition store3 :: LookingGlassState where
  "store3 = \<lparr>shell = \<lparr>tabs = \<lparr>items = [tab_of ''a'', tab_of ''b'', tab_of ''c''], activeId = Some ''a''\<rparr>,
                       sidebarCollapsed = False\<rparr>\<rparr>"

definition tool_of :: "string \<Rightarrow> string \<Rightarrow> ToolHandler option \<Rightarrow> ToolDefinition" where
  "tool_of n d f = \<lparr>tool_name = Some n, description = Some d, inputSchema = Some (JObj []), handler = f\<rparr>"

definition echo_tool :: ToolDefinition where
  "echo_tool = tool_of ''echo'' ''returns its parameters''
     (Some (\<lambda>p. Inr \<lparr>success = True, data = Some p, error = None\<rparr>))"

definition boom_tool :: ToolDefinition where
  "boom_tool = tool_of ''boom'' ''always throws'' (Some (\<lambda>p. Inl (Error ''kaput'')))"

definition bare_tool :: ToolDefinition where
  "bare_tool = tool_of ''bare'' ''no handler'' None"

text \<open>A handler that throws \<open>Object.create(null)\<close>.\<close>

definition opaque_tool :: ToolDefinition where
  "opaque_tool = tool_of ''opaque'' ''throws an object without prototype''
     (Some (\<lambda>p. Inl (Unconvertible (Error ''Cannot convert object to primitive value''))))"

definition echo_tool2 :: ToolDefinition where
  "echo_tool2 = tool_of ''echo'' ''second definition'' None"

text \<open>Four objects, each made and then registered.\<close>

definition server4 :: MCPServer where
  "server4 = server_run
     [Assign 10 echo_tool, RegisterTool 10, Assign 11 boom_tool, RegisterTool 11,
      Assign 12 bare_tool, RegisterTool 12, Assign 13 opaque_tool, RegisterTool 13]
     (new_MCPServer False (new_EventBus False))"

text \<open>Two tools registered, and a third object that is a second definition of \<open>echo\<close>.\<close>

definition calls_two :: "server_call list" where
  "calls_two =
    [Assign 10 echo_tool, RegisterTool 10, Assign 11 boom_tool, RegisterTool 11, Assign 12 echo_tool2]"

definition server_two :: MCPServer where
  "server_two = server_run calls_two (new_MCPServer False (new_EventBus False))"

text \<open>
  One builder used for two tools: named \<open>a\<close>, built and registered, then named \<open>b\<close>,
  built and registered again.
\<close>

definition builder_reused :: MCPServer where
  "builder_reused =
    (let s0 = new_MCPServer False (new_EventBus False);
         (b, h1) = new_ToolBuilder 10 (objects s0);
         s1 = register_built b (s0\<lparr>objects := builder_description ''first'' b (builder_name ''a'' b h1)\<rparr>)
     in register_built b (s1\<lparr>objects := builder_name ''b'' b (objects s1)\<rparr>))"

text \<open>
  Two objects registered as \<open>a\<close> and \<open>b\<close>; the caller then renames the first to \<open>b\<close>
  and registers the second once more, under the name \<open>b\<close> that is already registered.
\<close>

definition renamed_server :: MCPServer where
  "renamed_server = server_run
     [Assign 10 (tool_of ''a'' ''first'' None), RegisterTool 10,
      Assign 11 (tool_of ''b'' ''second'' None), RegisterTool 11,
      Assign 10 (tool_of ''b'' ''first'' None), RegisterTool 11]
     (new_MCPServer False (new_EventBus False))"

definition const_handler :: "string \<Rightarrow> ResourceHandler" where
  "const_handler tag = (\<lambda>u. Inr (JObj [(tag, JStr u)]))"

definition res_of :: "string \<Rightarrow> ResourceDefinition" where
  "res_of u = \<lparr>uri = u, res_name = u, res_description = [], mimeType = None\<rparr>"

definition server_res :: MCPServer where
  "server_res = server_run
     [RegisterResource (res_of ''memory://*'') (const_handler ''wild''),
      RegisterResource (res_of ''memory://re*'') (const_handler ''second''),
      RegisterResource (res_of ''memory://recent'') (const_handler ''exact'')]
     (new_MCPServer False (new_EventBus False))"

definition note_n :: Notification where
  "note_n = \<lparr>n_type = ''theme'', n_data = JStr ''dark'', timestamp = None\<rparr>"

definition quiet_transport :: Transport where
  "quiet_transport = \<lparr>sendNotification = (\<lambda>n. None)\<rparr>"

definition bus_listening :: EventBus where
  "bus_listening = snd (on_event ''mcp:notification'' (\<lambda>d. None) (new_EventBus False))"

definition server_wired :: MCPServer where
  "server_wired = setTransport quiet_transport (new_MCPServer False bus_listening)"

definition server_alone :: MCPServer where
  "server_alone = new_MCPServer False bus_listening"

definition throwing_handler :: "payload \<Rightarrow> thrown option" where
  "throwing_handler = (\<lambda>d. Some (Error ''bad''))"

definition bus_once_throwing :: EventBus where
  "bus_once_throwing = snd (once_event ''tick'' throwing_handler (new_EventBus False))"

definition bus_once_returning :: EventBus where
  "bus_once_returning = snd (once_event ''tick'' (\<lambda>d. None) (new_EventBus False))"

definition ws_open :: WebSocketTransport where
  "ws_open = ws_run [Connect, SockOpen] (new_WebSocketTransport None None)"

definition ws_spent :: WebSocketTransport where
  "ws_spent = ws_run [Connect, SockOpen, SockClose] (new_WebSocketTransport None (Some 1))"

text \<open>Connected transports that allow no reconnect at all.\<close>

definition ws_zero :: WebSocketTransport where
  "ws_zero = ws_run [Connect, SockOpen] (new_WebSocketTransport None (Some 0))"

definition sse_zero :: HttpSseTransport where
  "sse_zero = sse_run [SseConnect, SseOpen] (new_HttpSseTransport None (Some 0))"

definition sse_spent :: HttpSseTransport where
  "sse_spent = sse_run [SseConnect, SseOpen, SseError] (new_HttpSseTransport None (Some 1))"

section \<open>Theorems: tabs\<close>

lemma closeTab_items:
  "items (tabs (shell (fst (closeTab i st b)))) = filter (\<lambda>t. tab_id t \<noteq> i) (items (tabs (shell st)))"
  by (simp add: closeTab_def Let_def)

lemma closeTab_activeId:
  "activeId (tabs (shell (fst (closeTab i st b)))) =
    (if activeId (tabs (shell st)) = Some i
     then (case filter (\<lambda>t. tab_id t \<noteq> i) (items (tabs (shell st))) of
             [] \<Rightarrow> None | t # _ \<Rightarrow> Some (tab_id t))
     else activeId (tabs (shell st)))"
  by (simp add: closeTab_def Let_def)

text \<open>
  C9. \<open>closeTab\<close> removes every tab with the given id and keeps the others in their
  order. When the closed id was the active one, the first remaining tab becomes active,
  or none when no tab remains; otherwise the active id is unchanged.
\<close>

theorem closeTab_spec:
  fixes st :: "'a LookingGlassState_scheme" and i :: string and b :: EventBus
  defines "before \<equiv> tabs (shell st)"
  defines "after \<equiv> tabs (shell (fst (closeTab i st b)))"
  shows "items after = filter (\<lambda>t. tab_id t \<noteq> i) (items before)
       \<and> i \<notin> tab_id ` set (items after)
       \<and> (activeId before = Some i \<and> items after = [] \<longrightarrow> activeId after = None)
       \<and> (activeId before = Some i \<and> items after \<noteq> [] \<longrightarrow> activeId after = Some (tab_id (hd (items after))))
       \<and> (activeId before \<noteq> Some i \<longrightarrow> activeId after = activeId before)"
  unfolding before_def after_def closeTab_items closeTab_activeId
  by (auto split: list.splits)

theorem closeTab_spec_witness:
  "activeId (tabs (shell store3)) = Some ''a''
   \<and> items (tabs (shell (fst (closeTab ''a'' store3 (new_EventBus False))))) = [tab_of ''b'', tab_of ''c'']
   \<and> activeId (tabs (shell (fst (closeTab ''a'' store3 (new_EventBus False))))) = Some ''b''
   \<and> activeId (tabs (shell (fst (closeTab ''c'' store3 (new_EventBus False))))) = Some ''a''"
  using closeTab_spec [of "''a''" store3 "new_EventBus False"]
        closeTab_spec [of "''c''" store3 "new_EventBus False"]
  by (simp add: store3_def tab_of_def)

section \<open>Theorems: invoking a tool\<close>

text \<open>How \<open>callTool\<close> ends, branch by branch.\<close>

lemma callTool_outcome:
  "fst (callTool nm params s) =
    (case map_of (tools s) (Some nm) of
       None \<Rightarrow> Inr \<lparr>success = False, data = None, error = Some (''Tool not found: '' @ nm)\<rparr>
     | Some r \<Rightarrow>
         (case handler (objects s r) of
            None \<Rightarrow> Inr \<lparr>success = False, data = None, error = Some (''Tool has no handler: '' @ nm)\<rparr>
          | Some h \<Rightarrow>
              (case h params of
                 Inr res \<Rightarrow> Inr res
               | Inl e \<Rightarrow>
                   (case message_of e of
                      Inr msg \<Rightarrow> Inr \<lparr>success = False, data = None, error = Some msg\<rparr>
                    | Inl thrown_again \<Rightarrow> Inl thrown_again))))"
  by (simp add: callTool_def failure_def Let_def split: option.splits sum.splits prod.splits)

text \<open>
  \<open>callTool\<close> ends with a result, and with a failure that carries a message when the
  tool is missing, has no handler or throws, unless the handler throws a value whose
  conversion to a message throws.
\<close>

lemma callTool_contained:
  assumes "\<forall>r h e. map_of (tools s) (Some nm) = Some r \<and> handler (objects s r) = Some h
              \<and> h params = Inl e \<longrightarrow> (\<exists>msg. message_of e = Inr msg)"
  shows "\<exists>res. fst (callTool nm params s) = Inr res
     \<and> (getTool nm s = None \<longrightarrow> success res = False \<and> error res = Some (''Tool not found: '' @ nm))
     \<and> (\<forall>tool. getTool nm s = Some tool \<and> handler tool = None
            \<longrightarrow> success res = False \<and> error res = Some (''Tool has no handler: '' @ nm))
     \<and> (\<forall>tool h e. getTool nm s = Some tool \<and> handler tool = Some h \<and> h params = Inl e
            \<longrightarrow> success res = False \<and> (\<exists>msg. message_of e = Inr msg \<and> error res = Some msg))
     \<and> (\<forall>tool h out. getTool nm s = Some tool \<and> handler tool = Some h \<and> h params = Inr out
            \<longrightarrow> res = out)"
proof (cases "map_of (tools s) (Some nm)")
  case None
  then show ?thesis by (simp add: callTool_outcome getTool_def)
next
  case (Some r)
  show ?thesis
  proof (cases "handler (objects s r)")
    case None
    with Some show ?thesis by (simp add: callTool_outcome getTool_def)
  next
    case (Some h)
    note h = this
    show ?thesis
    proof (cases "h params")
      case (Inr out)
      with \<open>map_of (tools s) (Some nm) = Some r\<close> h show ?thesis
        by (simp add: callTool_outcome getTool_def)
    next
      case (Inl e)
      with assms \<open>map_of (tools s) (Some nm) = Some r\<close> h obtain msg where "message_of e = Inr msg"
        by blast
      with Inl \<open>map_of (tools s) (Some nm) = Some r\<close> h show ?thesis
        by (simp add: callTool_outcome getTool_def)
    qed
  qed
qed

lemma server4_tools:
  "tools server4 = [(Some ''echo'', 10), (Some ''boom'', 11), (Some ''bare'', 12), (Some ''opaque'', 13)]"
  by (simp add: server4_def new_MCPServer_def registerTool_def assign_def Let_def
        echo_tool_def boom_tool_def bare_tool_def opaque_tool_def tool_of_def)

lemma server4_objects:
  "objects server4 10 = echo_tool" "objects server4 11 = boom_tool"
  "objects server4 12 = bare_tool" "objects server4 13 = opaque_tool"
  by (simp_all add: server4_def new_MCPServer_def registerTool_def assign_def Let_def)

text \<open>
  C1. \<open>callTool\<close> is to end with a result for every name and payload and never with an
  exception. It does for an unregistered name, a tool without handler and a handler
  that throws an error: each time the result has \<open>success\<close> false and an \<open>error\<close>
  message. For the registered tool \<open>opaque\<close>, whose handler throws an object that has no
  string conversion, the conversion in the \<open>catch\<close> block throws and \<open>callTool\<close> ends
  with that exception.
\<close>

theorem callTool_rejects_unconvertible:
  "fst (callTool ''opaque'' JNull server4) = Inl (Error ''Cannot convert object to primitive value'')
   \<and> fst (callTool ''missing'' JNull server4)
        = Inr \<lparr>success = False, data = None, error = Some ''Tool not found: missing''\<rparr>
   \<and> fst (callTool ''bare'' JNull server4)
        = Inr \<lparr>success = False, data = None, error = Some ''Tool has no handler: bare''\<rparr>
   \<and> fst (callTool ''boom'' JNull server4) = Inr \<lparr>success = False, data = None, error = Some ''kaput''\<rparr>
   \<and> fst (callTool ''echo'' (JNum 1) server4) = Inr \<lparr>success = True, data = Some (JNum 1), error = None\<rparr>"
  by (simp add: callTool_outcome server4_tools server4_objects
        echo_tool_def boom_tool_def bare_tool_def opaque_tool_def tool_of_def)

section \<open>Theorems: reading a resource\<close>

lemma scan_patterns_none:
  "(\<forall>p \<in> fst ` set hs. \<not> startsWith u (strip_wildcard p)) \<Longrightarrow> scan_patterns u hs = None"
  by (induction hs) auto

lemma scan_patterns_first:
  "i < length hs \<Longrightarrow> startsWith u (strip_wildcard (fst (hs ! i)))
   \<Longrightarrow> (\<forall>j < i. \<not> startsWith u (strip_wildcard (fst (hs ! j))))
   \<Longrightarrow> scan_patterns u hs = Some (snd (hs ! i))"
proof (induction hs arbitrary: i)
  case Nil
  then show ?case by simp
next
  case (Cons a hs)
  obtain p h where a: "a = (p, h)" by (cases a)
  show ?case
  proof (cases i)
    case 0
    with Cons.prems a show ?thesis by simp
  next
    case (Suc k)
    from Cons.prems(3) Suc have "\<not> startsWith u (strip_wildcard (fst ((a # hs) ! 0)))"
      by blast
    then have nohead: "\<not> startsWith u (strip_wildcard p)" using a by simp
    have "\<forall>j < k. \<not> startsWith u (strip_wildcard (fst (hs ! j)))"
    proof (intro allI impI)
      fix j assume "j < k"
      then have "Suc j < i" using Suc by simp
      with Cons.prems(3) have "\<not> startsWith u (strip_wildcard (fst ((a # hs) ! Suc j)))" by blast
      then show "\<not> startsWith u (strip_wildcard (fst (hs ! j)))" by simp
    qed
    moreover have "k < length hs" using Cons.prems(1) Suc by simp
    moreover have "startsWith u (strip_wildcard (fst (hs ! k)))" using Cons.prems(2) Suc by simp
    ultimately have "scan_patterns u hs = Some (snd (hs ! k))" by (rule Cons.IH[rotated 2])
    with nohead a Suc show ?thesis by simp
  qed
qed

lemma readResource_result:
  "fst (readResource u s) =
    (case map_of (resourceHandlers s) u of
       Some h \<Rightarrow> h u
     | None \<Rightarrow> (case scan_patterns u (resourceHandlers s) of
                  Some h \<Rightarrow> h u
                | None \<Rightarrow> Inl (Error (''Resource not found: '' @ u))))"
  by (simp add: readResource_def Let_def split: option.splits prod.splits)

text \<open>
  C5. \<open>readResource\<close> takes the handler stored under exactly the URI when there is one;
  otherwise the handler of the first entry, in the order of the registry, whose URI
  without its final asterisk is a prefix of the requested URI; the handler is applied to
  the requested URI itself. When no entry matches, the call ends with the exception
  \<open>Resource not found\<close>.
\<close>

theorem readResource_spec:
  fixes s :: MCPServer and u :: string
  defines "hs \<equiv> resourceHandlers s"
  shows "(\<forall>h. map_of hs u = Some h \<longrightarrow> fst (readResource u s) = h u)
       \<and> (\<forall>i. map_of hs u = None \<and> i < length hs
              \<and> startsWith u (strip_wildcard (fst (hs ! i)))
              \<and> (\<forall>j < i. \<not> startsWith u (strip_wildcard (fst (hs ! j))))
            \<longrightarrow> fst (readResource u s) = snd (hs ! i) u)
       \<and> (map_of hs u = None \<and> (\<forall>p \<in> fst ` set hs. \<not> startsWith u (strip_wildcard p))
            \<longrightarrow> fst (readResource u s) = Inl (Error (''Resource not found: '' @ u)))"
  unfolding hs_def readResource_result
  by (auto simp: scan_patterns_first scan_patterns_none)

lemma server_res_handlers:
  "resourceHandlers server_res =
     [(''memory://*'', const_handler ''wild''), (''memory://re*'', const_handler ''second''),
      (''memory://recent'', const_handler ''exact'')]"
  by (simp add: server_res_def new_MCPServer_def registerResource_def res_of_def)

theorem readResource_spec_witness:
  "fst (readResource ''memory://recent'' server_res) = Inr (JObj [(''exact'', JStr ''memory://recent'')])
   \<and> fst (readResource ''memory://rest'' server_res) = Inr (JObj [(''wild'', JStr ''memory://rest'')])
   \<and> fst (readResource ''file://x'' server_res) = Inl (Error ''Resource not found: file://x'')"
proof -
  have exact: "fst (readResource ''memory://recent'' server_res) = const_handler ''exact'' ''memory://recent''"
    using readResource_spec [where u = "''memory://recent''" and s = server_res,
            THEN conjunct1, THEN spec, of "const_handler ''exact''"]
    by (simp add: server_res_handlers)
  have wild: "fst (readResource ''memory://rest'' server_res)
                = snd (resourceHandlers server_res ! 0) ''memory://rest''"
    using readResource_spec [where u = "''memory://rest''" and s = server_res,
            THEN conjunct2, THEN conjunct1, THEN spec, of 0]
    by (simp add: server_res_handlers startsWith_def strip_wildcard_def)
  have miss: "fst (readResource ''file://x'' server_res) = Inl (Error ''Resource not found: file://x'')"
    using readResource_spec [where u = "''file://x''" and s = server_res,
            THEN conjunct2, THEN conjunct2]
    by (simp add: server_res_handlers startsWith_def strip_wildcard_def)
  from exact wild miss show ?thesis
    by (simp add: server_res_handlers const_handler_def)
qed

section \<open>Theorems: registering a tool\<close>

lemma tools_callTool:
  "tools (snd (snd (callTool nm params s))) = tools s"
  "objects (snd (snd (callTool nm params s))) = objects s"
  by (simp_all add: callTool_def Let_def split: option.splits sum.splits prod.splits)

lemma tools_readResource:
  "tools (snd (snd (readResource u s))) = tools s"
  "objects (snd (snd (readResource u s))) = objects s"
  by (simp_all add: readResource_def Let_def split: option.splits prod.splits)

lemma tools_emit:
  "tools (snd (snd (MCPServer_emit now n s))) = tools s"
  "objects (snd (snd (MCPServer_emit now n s))) = objects s"
  by (simp_all add: MCPServer_emit_def Let_def split: option.splits prod.splits)

lemma keys_distinct_step:
  "distinct (map fst (tools s)) \<Longrightarrow> distinct (map fst (tools (server_step c s)))"
  by (cases c)
     (simp_all add: assign_def registerTool_def unregisterTool_def registerResource_def
        unregisterResource_def setTransport_def Let_def distinct_update distinct_delete
        tools_callTool tools_readResource tools_emit)

lemma keys_distinct_run:
  "distinct (map fst (tools s)) \<Longrightarrow> distinct (map fst (tools (server_run cs s)))"
  by (induction cs arbitrary: s) (simp_all add: keys_distinct_step)

lemma names_update:
  "list_all (\<lambda>(k, r). f r = k) al \<Longrightarrow> f v = k' \<Longrightarrow> list_all (\<lambda>(k, r). f r = k) (AList.update k' v al)"
  by (induction al) auto

lemma names_intact_step:
  assumes "names_intact s" and "keeps_name c s"
  shows "names_intact (server_step c s)"
proof (cases c)
  case (Assign r d)
  with assms have either: "r \<notin> snd ` set (tools s) \<or> tool_name d = tool_name (objects s r)"
    by simp
  have elsewhere: "\<And>k r'. (k, r') \<in> set (tools s) \<Longrightarrow> tool_name (objects s r') = k"
    using assms(1) by (auto simp: names_intact_def list_all_iff)
  have at_r: "\<And>k. (k, r) \<in> set (tools s) \<Longrightarrow> tool_name d = k"
  proof -
    fix k assume mem: "(k, r) \<in> set (tools s)"
    then have "r \<in> snd ` set (tools s)" by force
    with either elsewhere [OF mem] show "tool_name d = k" by simp
  qed
  from Assign at_r elsewhere show ?thesis
    by (auto simp: names_intact_def assign_def list_all_iff)
next
  case (RegisterTool r)
  with assms show ?thesis
    by (simp add: names_intact_def registerTool_def Let_def names_update)
next
  case (UnregisterTool nm)
  with assms show ?thesis
    by (simp add: names_intact_def unregisterTool_def AList.delete_eq list_all_iff)
qed (use assms in \<open>simp_all add: names_intact_def registerResource_def unregisterResource_def
      setTransport_def tools_callTool tools_readResource tools_emit\<close>)

lemma names_intact_run:
  "names_intact s \<Longrightarrow> keeps_names cs s \<Longrightarrow> names_intact (server_run cs s)"
  by (induction cs arbitrary: s) (simp_all add: names_intact_step)

lemma names_are_keys: "names_intact s \<Longrightarrow> map tool_name (listTools s) = map fst (tools s)"
proof -
  have "\<And>al. list_all (\<lambda>(k, r). tool_name (objects s r) = k) al
          \<Longrightarrow> map tool_name (map (\<lambda>(k, r). objects s r) al) = map fst al"
  proof -
    fix al show "list_all (\<lambda>(k, r). tool_name (objects s r) = k) al
          \<Longrightarrow> map tool_name (map (\<lambda>(k, r). objects s r) al) = map fst al"
      by (induction al) auto
  qed
  then show "names_intact s \<Longrightarrow> map tool_name (listTools s) = map fst (tools s)"
    by (simp add: names_intact_def listTools_def)
qed

lemma one_entry_per_key:
  "distinct (map fst al) \<Longrightarrow> k \<in> set (map fst al) \<Longrightarrow> length (filter (\<lambda>e. fst e = k) al) = 1"
proof (induction al)
  case Nil
  then show ?case by simp
next
  case (Cons a al)
  show ?case
  proof (cases "fst a = k")
    case True
    with Cons.prems have "k \<notin> fst ` set al" by auto
    then have "filter (\<lambda>e. fst e = k) al = []" by (auto simp: filter_empty_conv)
    with True show ?thesis by simp
  next
    case False
    with Cons show ?thesis by auto
  qed
qed

lemma one_name_per_key:
  "distinct ks \<Longrightarrow> k \<in> set ks \<Longrightarrow> length (filter (\<lambda>x. x = k) ks) = 1"
proof (induction ks)
  case Nil
  then show ?case by simp
next
  case (Cons a ks)
  show ?case
  proof (cases "a = k")
    case True
    with Cons.prems have "k \<notin> set ks" by auto
    then have "filter (\<lambda>x. x = k) ks = []" by (auto simp: filter_empty_conv)
    with True show ?thesis by simp
  next
    case False
    with Cons show ?thesis by auto
  qed
qed

lemma update_length:
  "length (AList.update k v al) = (if map_of al k = None then Suc (length al) else length al)"
  by (induction al) auto

text \<open>
  C6, as the code has it. In every server reached from a fresh one the keys of the tool
  registry are distinct. \<open>registerTool\<close> stores the given object under the name the
  object has at that moment: under a key already present it replaces the entry in
  place, so that exactly one entry is stored under that key, the registry is no longer
  than before, every other key is untouched and \<open>getTool\<close> returns the object just
  registered; the call has no failing branch. When no caller has given a registered
  object another name, every listed definition still has the name of its key: the names
  in \<open>listTools\<close> are distinct and exactly one entry has the registered name.
\<close>

theorem registerTool_replaces_entry:
  fixes cs :: "server_call list" and dbg :: bool and b :: EventBus and r :: ref
  defines "s \<equiv> server_run cs (new_MCPServer dbg b)"
  defines "s' \<equiv> snd (registerTool r s)"
  defines "k \<equiv> tool_name (objects s r)"
  shows "distinct (map fst (tools s))
       \<and> distinct (map fst (tools s'))
       \<and> map_of (tools s') k = Some r
       \<and> length (filter (\<lambda>e. fst e = k) (tools s')) = 1
       \<and> length (listTools s') =
           (if map_of (tools s) k = None then Suc (length (listTools s)) else length (listTools s))
       \<and> (\<forall>k'. k' \<noteq> k \<longrightarrow> map_of (tools s') k' = map_of (tools s) k')
       \<and> (\<forall>nm. k = Some nm \<longrightarrow> getTool nm s' = Some (objects s r))
       \<and> (keeps_names cs (new_MCPServer dbg b) \<longrightarrow>
            names_intact s'
            \<and> distinct (map tool_name (listTools s'))
            \<and> length (filter (\<lambda>d. tool_name d = k) (listTools s')) = 1)"
proof -
  have d: "distinct (map fst (tools s))"
    unfolding s_def by (rule keys_distinct_run) (simp add: new_MCPServer_def)
  have t': "tools s' = AList.update k r (tools s)" and o': "objects s' = objects s"
    by (simp_all add: s'_def k_def registerTool_def Let_def)
  have d': "distinct (map fst (tools s'))"
    using d by (simp add: t' distinct_update)
  have m: "map_of (tools s') k = Some r"
    by (simp add: t' update_conv')
  then have "k \<in> set (map fst (tools s'))"
    by (metis map_of_eq_None_iff option.distinct(1) set_map)
  with d' have one: "length (filter (\<lambda>e. fst e = k) (tools s')) = 1"
    by (rule one_entry_per_key)
  have len: "length (listTools s') =
           (if map_of (tools s) k = None then Suc (length (listTools s)) else length (listTools s))"
    by (simp add: listTools_def t' update_length)
  have others: "\<forall>k'. k' \<noteq> k \<longrightarrow> map_of (tools s') k' = map_of (tools s) k'"
    by (simp add: t' update_conv')
  have g: "\<forall>nm. k = Some nm \<longrightarrow> getTool nm s' = Some (objects s r)"
    using m by (auto simp: getTool_def o')
  have intact: "keeps_names cs (new_MCPServer dbg b) \<longrightarrow>
            names_intact s'
            \<and> distinct (map tool_name (listTools s'))
            \<and> length (filter (\<lambda>d. tool_name d = k) (listTools s')) = 1"
  proof
    assume kn: "keeps_names cs (new_MCPServer dbg b)"
    have "names_intact (new_MCPServer dbg b)" by (simp add: names_intact_def new_MCPServer_def)
    from names_intact_run [OF this kn] have ni: "names_intact s" by (simp add: s_def)
    then have ni': "names_intact s'"
      by (simp add: names_intact_def t' o' k_def names_update)
    from names_are_keys [OF ni'] have nk: "map tool_name (listTools s') = map fst (tools s')" .
    have dn: "distinct (map tool_name (listTools s'))" using d' by (simp add: nk)
    have "length (filter (\<lambda>x. x = k) (map tool_name (listTools s'))) = 1"
      unfolding nk using d' \<open>k \<in> set (map fst (tools s'))\<close> by (rule one_name_per_key)
    then have "length (filter (\<lambda>d. tool_name d = k) (listTools s')) = 1"
      by (simp add: filter_map comp_def)
    with ni' dn show "names_intact s'
            \<and> distinct (map tool_name (listTools s'))
            \<and> length (filter (\<lambda>d. tool_name d = k) (listTools s')) = 1" by simp
  qed
  show ?thesis by (intro conjI) (rule d d' m one len others g intact)+
qed

lemma server_two_fields:
  "tools server_two = [(Some ''echo'', 10), (Some ''boom'', 11)]"
  "objects server_two 10 = echo_tool" "objects server_two 11 = boom_tool" "objects server_two 12 = echo_tool2"
  by (simp_all add: server_two_def calls_two_def new_MCPServer_def registerTool_def assign_def Let_def
        echo_tool_def boom_tool_def echo_tool2_def tool_of_def)

theorem registerTool_replaces_entry_witness:
  "keeps_names calls_two (new_MCPServer False (new_EventBus False))
   \<and> getTool ''echo'' server_two = Some echo_tool
   \<and> listTools (snd (registerTool 12 server_two)) = [echo_tool2, boom_tool]
   \<and> map tool_name (listTools (snd (registerTool 12 server_two))) = [Some ''echo'', Some ''boom'']
   \<and> getTool ''echo'' (snd (registerTool 12 server_two)) = Some echo_tool2
   \<and> getTool ''boom'' (snd (registerTool 12 server_two)) = Some boom_tool
   \<and> length (filter (\<lambda>d. tool_name d = Some ''echo'') (listTools (snd (registerTool 12 server_two)))) = 1"
proof -
  have kn: "keeps_names calls_two (new_MCPServer False (new_EventBus False))"
    by (simp add: calls_two_def new_MCPServer_def registerTool_def assign_def Let_def)
  have k: "tool_name (objects server_two 12) = Some ''echo''"
    by (simp add: server_two_fields echo_tool2_def tool_of_def)
  note T = registerTool_replaces_entry [of calls_two False "new_EventBus False" 12, folded server_two_def]
  from T kn k have one:
    "length (filter (\<lambda>d. tool_name d = Some ''echo'') (listTools (snd (registerTool 12 server_two)))) = 1"
    by simp
  from T k have g: "getTool ''echo'' (snd (registerTool 12 server_two)) = Some (objects server_two 12)"
    by simp
  have n2: "tool_name echo_tool2 = Some ''echo''" by (simp add: echo_tool2_def tool_of_def)
  have l: "listTools (snd (registerTool 12 server_two)) = [echo_tool2, boom_tool]"
    by (simp add: listTools_def registerTool_def Let_def server_two_fields n2)
  have b: "getTool ''boom'' (snd (registerTool 12 server_two)) = Some boom_tool"
    by (simp add: getTool_def registerTool_def Let_def server_two_fields n2)
  have e: "getTool ''echo'' server_two = Some echo_tool"
    by (simp add: getTool_def server_two_fields)
  from kn one g l b e show ?thesis
    by (simp add: server_two_fields echo_tool2_def boom_tool_def tool_of_def)
qed

text \<open>
  The registry stores the caller's object and the caller can rename it. A builder used
  for the tools \<open>a\<close> and \<open>b\<close> leaves its one object under both keys: \<open>listTools\<close> has two
  entries named \<open>b\<close> and none named \<open>a\<close>. The same after two objects were registered as
  \<open>a\<close> and \<open>b\<close>, the first was renamed to \<open>b\<close>, and the already registered name \<open>b\<close> was
  registered again.
\<close>

theorem registered_names_not_unique:
  "map fst (tools builder_reused) = [Some ''a'', Some ''b'']
   \<and> map tool_name (listTools builder_reused) = [Some ''b'', Some ''b'']
   \<and> \<not> distinct (map tool_name (listTools builder_reused))
   \<and> length (filter (\<lambda>d. tool_name d = Some ''b'') (listTools builder_reused)) = 2
   \<and> map fst (tools renamed_server) = [Some ''a'', Some ''b'']
   \<and> map tool_name (listTools renamed_server) = [Some ''b'', Some ''b'']
   \<and> length (filter (\<lambda>d. tool_name d = Some ''b'') (listTools renamed_server)) = 2"
proof -
  have bt: "tools builder_reused = [(Some ''a'', 10), (Some ''b'', 10)]"
    and bo: "tool_name (objects builder_reused 10) = Some ''b''"
    by (simp_all add: builder_reused_def register_built_def build_def falsy_def new_ToolBuilder_def
          builder_name_def builder_description_def new_MCPServer_def registerTool_def empty_object_def
          Let_def)
  have rt: "tools renamed_server = [(Some ''a'', 10), (Some ''b'', 11)]"
    and ro: "tool_name (objects renamed_server 10) = Some ''b''" "tool_name (objects renamed_server 11) = Some ''b''"
    by (simp_all add: renamed_server_def new_MCPServer_def registerTool_def assign_def tool_of_def Let_def)
  show ?thesis by (simp add: listTools_def bt bo rt ro)
qed

section \<open>Theorems: resource registries and notifications\<close>

lemma keys_callTool:
  "resources (snd (snd (callTool nm params s))) = resources s"
  "resourceHandlers (snd (snd (callTool nm params s))) = resourceHandlers s"
  by (simp_all add: callTool_def Let_def split: option.splits sum.splits prod.splits)

lemma keys_readResource:
  "resources (snd (snd (readResource u s))) = resources s"
  "resourceHandlers (snd (snd (readResource u s))) = resourceHandlers s"
  by (simp_all add: readResource_def Let_def split: option.splits prod.splits)

lemma keys_emit:
  "resources (snd (snd (MCPServer_emit now n s))) = resources s"
  "resourceHandlers (snd (snd (MCPServer_emit now n s))) = resourceHandlers s"
  by (simp_all add: MCPServer_emit_def Let_def split: option.splits prod.splits)

lemma same_keys_step:
  "map fst (resources s) = map fst (resourceHandlers s)
   \<Longrightarrow> map fst (resources (server_step c s)) = map fst (resourceHandlers (server_step c s))"
  by (cases c)
     (simp_all add: assign_def registerTool_def unregisterTool_def registerResource_def
        unregisterResource_def setTransport_def Let_def update_keys delete_keys
        keys_callTool keys_readResource keys_emit)

lemma same_keys_run:
  "map fst (resources s) = map fst (resourceHandlers s)
   \<Longrightarrow> map fst (resources (server_run cs s)) = map fst (resourceHandlers (server_run cs s))"
  by (induction cs arbitrary: s) (simp_all add: same_keys_step)

lemma map_of_None_keys: "(map_of al k = None) = (k \<notin> set (map fst al))"
  by (simp add: map_of_eq_None_iff)

text \<open>
  C10. In every server reached from a fresh one, the resource definitions and the
  resource handlers are stored under the same URIs, in the same order: a URI has a
  definition exactly when it has a handler. \<open>registerResource\<close> adds its URI to the keys
  of both registries and \<open>unregisterResource\<close> removes its URI from both.
\<close>

theorem resource_registries_same_keys:
  fixes cs :: "server_call list" and dbg :: bool and b :: EventBus
    and r :: ResourceDefinition and h :: ResourceHandler and u :: string
  defines "s \<equiv> server_run cs (new_MCPServer dbg b)"
  shows "map fst (resources s) = map fst (resourceHandlers s)
       \<and> (map_of (resources s) u = None) = (map_of (resourceHandlers s) u = None)
       \<and> fst ` set (resources (snd (registerResource r h s))) = insert (uri r) (fst ` set (resources s))
       \<and> fst ` set (resourceHandlers (snd (registerResource r h s)))
            = insert (uri r) (fst ` set (resourceHandlers s))
       \<and> fst ` set (resources (snd (unregisterResource u s))) = fst ` set (resources s) - {u}
       \<and> fst ` set (resourceHandlers (snd (unregisterResource u s)))
            = fst ` set (resourceHandlers s) - {u}"
proof -
  have k: "map fst (resources s) = map fst (resourceHandlers s)"
    unfolding s_def by (rule same_keys_run) (simp add: new_MCPServer_def)
  have m: "(map_of (resources s) u = None) = (map_of (resourceHandlers s) u = None)"
    unfolding map_of_None_keys k ..
  have del: "\<And>al :: (string \<times> 'x) list. fst ` set (AList.delete u al) = fst ` set al - {u}"
    by (auto simp: AList.delete_eq)
  show ?thesis
    using k m by (simp add: registerResource_def unregisterResource_def dom_update del)
qed

lemma run_handlers_no_Send: "Send m \<notin> set (fst (run_handlers event d subs))"
  by (induction subs) (auto split: prod.splits option.splits)

lemma run_handlers_Invokes:
  "filter is_Invoke (fst (run_handlers event d subs)) = map (\<lambda>sub. Invoke (sub_id sub) event d) subs"
  by (induction subs) (auto split: prod.splits option.splits)

lemma emit_no_Send: "Send m \<notin> set (fst (EventBus_emit event d b))"
  using run_handlers_no_Send [of m event d]
  by (auto simp: EventBus_emit_def Let_def split: option.splits prod.splits)
     (metis fst_conv)

lemma emit_Invokes:
  "filter is_Invoke (fst (EventBus_emit event d b))
     = map (\<lambda>sub. Invoke (sub_id sub) event d) (subscribers event b)"
  using run_handlers_Invokes [of event d]
  by (auto simp: EventBus_emit_def subscribers_def Let_def split: option.splits prod.splits)
     (metis fst_conv)

text \<open>
  C7. \<open>MCPServer.emit\<close> keeps type and data of the notification and a timestamp that is
  present, and stamps the current time on one without timestamp. Its effects begin with
  the publication on the event bus, which calls every subscriber of \<open>mcp:notification\<close>
  in order with the enriched notification and sends nothing. With a transport attached
  exactly one \<open>sendNotification\<close> follows, carrying the enriched notification; with no
  transport nothing is sent.
\<close>

theorem MCPServer_emit_order:
  fixes now :: int and n :: Notification and s :: MCPServer
  defines "n' \<equiv> enrich now n"
  defines "published \<equiv> fst (EventBus_emit ''mcp:notification'' (Notify n') (eventBus s))"
  defines "effs \<equiv> fst (snd (MCPServer_emit now n s))"
  shows "n_type n' = n_type n \<and> n_data n' = n_data n
       \<and> (timestamp n = None \<longrightarrow> timestamp n' = Some now)
       \<and> (\<forall>t. timestamp n = Some t \<longrightarrow> timestamp n' = Some t)
       \<and> filter is_Invoke published
            = map (\<lambda>sub. Invoke (sub_id sub) ''mcp:notification'' (Notify n'))
                  (subscribers ''mcp:notification'' (eventBus s))
       \<and> (\<forall>m. Send m \<notin> set published)
       \<and> (transport s = None \<longrightarrow> (\<exists>post. effs = published @ post \<and> (\<forall>m. Send m \<notin> set post)))
       \<and> (\<forall>t. transport s = Some t
             \<longrightarrow> (\<exists>post. effs = published @ Send n' # post \<and> (\<forall>m. Send m \<notin> set post)))"
proof -
  have t1: "n_type n' = n_type n" by (simp add: n'_def enrich_def)
  have t2: "n_data n' = n_data n" by (simp add: n'_def enrich_def)
  have t3: "timestamp n = None \<longrightarrow> timestamp n' = Some now" by (simp add: n'_def enrich_def)
  have t4: "\<forall>t. timestamp n = Some t \<longrightarrow> timestamp n' = Some t" by (simp add: n'_def enrich_def)
  have inv: "filter is_Invoke published
            = map (\<lambda>sub. Invoke (sub_id sub) ''mcp:notification'' (Notify n'))
                  (subscribers ''mcp:notification'' (eventBus s))"
    unfolding published_def by (rule emit_Invokes)
  have nosend: "\<forall>m. Send m \<notin> set published"
    unfolding published_def by (simp add: emit_no_Send)
  have none: "transport s = None \<longrightarrow> (\<exists>post. effs = published @ post \<and> (\<forall>m. Send m \<notin> set post))"
    by (auto simp: effs_def published_def n'_def MCPServer_emit_def Let_def split: prod.splits)
  have some: "\<forall>t. transport s = Some t
             \<longrightarrow> (\<exists>post. effs = published @ Send n' # post \<and> (\<forall>m. Send m \<notin> set post))"
    by (auto simp: effs_def published_def n'_def MCPServer_emit_def Let_def split: prod.splits option.splits)
  show ?thesis by (intro conjI) (rule t1 t2 t3 t4 inv nosend none some)+
qed

theorem MCPServer_emit_order_witness:
  "timestamp note_n = None
   \<and> transport server_wired = Some quiet_transport
   \<and> fst (snd (MCPServer_emit 1700 note_n server_wired))
       = [Invoke 1 ''mcp:notification'' (Notify (note_n\<lparr>timestamp := Some 1700\<rparr>)),
          Send (note_n\<lparr>timestamp := Some 1700\<rparr>)]
   \<and> transport server_alone = None
   \<and> fst (snd (MCPServer_emit 1700 note_n server_alone))
       = [Invoke 1 ''mcp:notification'' (Notify (note_n\<lparr>timestamp := Some 1700\<rparr>))]"
  using MCPServer_emit_order [of 1700 note_n server_wired]
        MCPServer_emit_order [of 1700 note_n server_alone]
  by (simp add: MCPServer_emit_def enrich_def EventBus_emit_def server_wired_def server_alone_def
        setTransport_def new_MCPServer_def bus_listening_def on_event_def subscribe_def
        new_EventBus_def quiet_transport_def note_n_def Let_def)

section \<open>Theorems: once-subscriptions\<close>

lemma run_handlers_toRemove:
  "snd (run_handlers event d subs)
     = map sub_id (filter (\<lambda>s. once s \<and> sub_handler s d = None) subs)"
  by (induction subs) (auto split: prod.splits option.splits)

lemma filter_by_ids:
  "distinct (map sub_id subs) \<Longrightarrow>
   filter (\<lambda>s. sub_id s \<notin> sub_id ` set (filter P subs)) subs = filter (\<lambda>s. \<not> P s) subs"
proof -
  assume d: "distinct (map sub_id subs)"
  have "\<And>s. s \<in> set subs \<Longrightarrow> (sub_id s \<notin> sub_id ` set (filter P subs)) = (\<not> P s)"
  proof -
    fix s assume s: "s \<in> set subs"
    show "(sub_id s \<notin> sub_id ` set (filter P subs)) = (\<not> P s)"
    proof
      assume "sub_id s \<notin> sub_id ` set (filter P subs)"
      then show "\<not> P s" using s by auto
    next
      assume np: "\<not> P s"
      show "sub_id s \<notin> sub_id ` set (filter P subs)"
      proof
        assume "sub_id s \<in> sub_id ` set (filter P subs)"
        then obtain s' where s': "s' \<in> set subs" "P s'" "sub_id s' = sub_id s" by auto
        from d have "inj_on sub_id (set subs)" by (simp add: distinct_map)
        with s s' have "s' = s" by (auto dest: inj_onD)
        with s' np show False by simp
      qed
    qed
  qed
  then show ?thesis by (auto intro: filter_cong)
qed

text \<open>
  What \<open>emit\<close> leaves subscribed: every subscription but the once-subscriptions whose
  handler returned.
\<close>

lemma emit_subscribers:
  assumes "distinct (map sub_id (subscribers event b))"
  shows "subscribers event (snd (EventBus_emit event d b))
           = filter (\<lambda>s. \<not> (once s \<and> sub_handler s d = None)) (subscribers event b)"
proof (cases "map_of (subscriptions b) event")
  case None
  then show ?thesis by (simp add: EventBus_emit_def subscribers_def)
next
  case (Some subs)
  let ?P = "\<lambda>s. once s \<and> sub_handler s d = None"
  have subs: "subscribers event b = subs" using Some by (simp add: subscribers_def)
  obtain effs where rh: "run_handlers event d subs = (effs, map sub_id (filter ?P subs))"
    using run_handlers_toRemove [of event d subs] by (cases "run_handlers event d subs") simp
  show ?thesis
  proof (cases "filter ?P subs = []")
    case True
    then have "filter (\<lambda>s. \<not> ?P s) subs = subs" by (auto simp: filter_empty_conv filter_id_conv)
    with True Some rh subs show ?thesis
      by (simp add: EventBus_emit_def subscribers_def Let_def)
  next
    case False
    have "filter (\<lambda>s. sub_id s \<notin> set (map sub_id (filter ?P subs))) subs = filter (\<lambda>s. \<not> ?P s) subs"
      using filter_by_ids [of subs ?P] assms subs by simp
    with False Some rh subs show ?thesis
      by (simp add: EventBus_emit_def subscribers_def Let_def update_conv')
  qed
qed

text \<open>
  C3. A handler subscribed with \<open>once\<close> is to be removed after its first call even when
  that call throws, and is never to fire on a second emission. Here a once-handler that
  throws is subscribed to \<open>tick\<close>: the first emission calls it and leaves the bus as it
  was, so the second emission calls it again. A once-handler that returns is removed by
  the first emission.
\<close>

theorem once_throwing_handler_fires_again:
  "subscribers ''tick'' bus_once_throwing = [\<lparr>sub_id = 1, sub_handler = throwing_handler, once = True\<rparr>]
   \<and> fst (EventBus_emit ''tick'' (Other JNull) bus_once_throwing)
        = [Invoke 1 ''tick'' (Other JNull), Console Err ''[EventBus] Error in handler for tick'']
   \<and> snd (EventBus_emit ''tick'' (Other JNull) bus_once_throwing) = bus_once_throwing
   \<and> fst (EventBus_emit ''tick'' (Other JNull) (snd (EventBus_emit ''tick'' (Other JNull) bus_once_throwing)))
        = [Invoke 1 ''tick'' (Other JNull), Console Err ''[EventBus] Error in handler for tick'']
   \<and> listenerCount ''tick'' (snd (EventBus_emit ''tick'' (Other JNull) bus_once_returning)) = 0"
  by (simp add: bus_once_throwing_def bus_once_returning_def once_event_def subscribe_def
        new_EventBus_def EventBus_emit_def subscribers_def listenerCount_def throwing_handler_def Let_def)

section \<open>Theorems: pending requests of the WebSocket transport\<close>

lemmas ws_defs = say_def send_def connect_def reconnect_def onopen_def onerror_def onclose_def
  disconnect_def ws_sendNotification_def request_def request_timeout_def ws_callTool_def
  ws_readResource_def handleResponse_def handleToolCall_def handleResourceRead_def

lemma settlements_of_append:
  "settlements_of i (w\<lparr>settled := settled w @ [(j, x)]\<rparr>) =
     settlements_of i w @ (if j = i then [x] else [])"
  by (simp add: settlements_of_def)

lemma gone_handleMessage:
  "gone i w \<Longrightarrow> gone i (handleMessage m w) \<and> settlements_of i (handleMessage m w) = settlements_of i w"
  by (cases m)
     (auto simp: gone_def settlements_of_def ws_defs Let_def split: option.splits sum.splits)

lemma gone_fire:
  "gone i w \<Longrightarrow> gone i (fire t w) \<and> settlements_of i (fire t w) = settlements_of i w"
  by (cases t) (auto simp: gone_def settlements_of_def ws_defs)

lemma gone_fire_all:
  "gone i w \<Longrightarrow> gone i (fire_all ts w) \<and> settlements_of i (fire_all ts w) = settlements_of i w"
proof (induction ts arbitrary: w)
  case Nil
  then show ?case by simp
next
  case (Cons a ts)
  obtain due t where a: "a = (due, t)" by (cases a)
  from Cons.prems have g: "gone i (fire t w)" and s: "settlements_of i (fire t w) = settlements_of i w"
    using gone_fire by blast+
  from Cons.IH [OF g] s a show ?case by simp
qed

lemma gone_elapse:
  "gone i w \<Longrightarrow> gone i (elapse dt w) \<and> settlements_of i (elapse dt w) = settlements_of i w"
proof -
  assume g: "gone i w"
  let ?w = "w\<lparr>clock := clock w + dt, timers := filter (\<lambda>(d, t). \<not> d \<le> clock w + dt) (timers w)\<rparr>"
  have "gone i ?w" using g by (simp add: gone_def)
  from gone_fire_all [OF this] show ?thesis
    by (simp add: elapse_def Let_def settlements_of_def)
qed

lemma gone_step:
  "gone i w \<Longrightarrow> gone i (ws_step e w) \<and> settlements_of i (ws_step e w) = settlements_of i w"
proof (cases e)
  case (SockMessage m)
  assume "gone i w"
  with SockMessage show ?thesis by (simp add: gone_handleMessage)
next
  case (Elapse dt)
  assume "gone i w"
  with Elapse show ?thesis by (simp add: gone_elapse)
qed (auto simp: gone_def settlements_of_def ws_defs Let_def)

lemma gone_run:
  "gone i w \<Longrightarrow> gone i (ws_run evs w) \<and> settlements_of i (ws_run evs w) = settlements_of i w"
proof (induction evs arbitrary: w)
  case Nil
  then show ?case by simp
next
  case (Cons e evs)
  from gone_step [OF Cons.prems] have g: "gone i (ws_step e w)"
    and s: "settlements_of i (ws_step e w) = settlements_of i w" by blast+
  from Cons.IH [OF g] s show ?case by simp
qed

text \<open>
  Whatever the state, a request that was pending at \<open>disconnect\<close> is settled by nothing
  that follows.
\<close>

lemma disconnect_forgets_request:
  "settlements_of (fst (request ty d w)) (ws_run evs (disconnect (snd (request ty d w))))
     = settlements_of (fst (request ty d w)) w"
proof -
  let ?i = "fst (request ty d w)" and ?w = "disconnect (snd (request ty d w))"
  have "gone ?i ?w"
    by (simp add: gone_def ws_defs Let_def)
  from gone_run [OF this] have "settlements_of ?i (ws_run evs ?w) = settlements_of ?i ?w" by blast
  also have "\<dots> = settlements_of ?i w"
    by (simp add: settlements_of_def ws_defs Let_def)
  finally show ?thesis .
qed

lemma ws_open_fields:
  "requestCounter ws_open = 0" "settled ws_open = []" "pendingRequests ws_open = []"
  "socket ws_open = Some OPEN" "timers ws_open = []" "clock ws_open = 0"
  by (simp_all add: ws_open_def new_WebSocketTransport_def ws_defs)

text \<open>
  C2. Every pending request is to be settled in the end, also one that is outstanding
  when \<open>disconnect\<close> clears the map (by its timeout). On a connected transport one call
  is made, which gets the id 1 and is pending, and \<open>disconnect\<close> follows. Whatever
  events come after that, among them the passing of the 30 seconds, neither \<open>resolve\<close>
  nor \<open>reject\<close> of that call is ever called.
\<close>

theorem disconnect_leaks_pending_request:
  "fst (ws_callTool ''echo'' JNull ws_open) = 1
   \<and> pendingRequests (snd (ws_callTool ''echo'' JNull ws_open)) = [1]
   \<and> pendingRequests (ws_run [CallToolOut ''echo'' JNull, Disconnect] ws_open) = []
   \<and> settlements_of 1 (ws_run ([CallToolOut ''echo'' JNull, Disconnect] @ evs) ws_open) = []"
proof -
  have i: "fst (ws_callTool ''echo'' JNull ws_open) = 1"
    by (simp add: ws_callTool_def request_def Let_def ws_open_fields)
  have p: "pendingRequests (snd (ws_callTool ''echo'' JNull ws_open)) = [1]"
    by (simp add: ws_callTool_def request_def send_def say_def Let_def ws_open_fields)
  have q: "pendingRequests (ws_run [CallToolOut ''echo'' JNull, Disconnect] ws_open) = []"
    by (simp add: disconnect_def say_def)
  have "settlements_of 1 (ws_run evs (disconnect (snd (ws_callTool ''echo'' JNull ws_open)))) =
          settlements_of 1 ws_open"
    using disconnect_forgets_request
            [of "''tool_call''" "JObj [(''tool'', JStr ''echo''), (''params'', JNull)]" ws_open evs] i
    by (simp add: ws_callTool_def)
  then have s: "settlements_of 1 (ws_run ([CallToolOut ''echo'' JNull, Disconnect] @ evs) ws_open) = []"
    by (simp add: settlements_of_def ws_open_fields)
  from i p q s show ?thesis by simp
qed

text \<open>
  C4. A call that is never answered is to reject with a timeout after 30 seconds. It
  does when nothing else happens: after 30000 ms the one call made is rejected with
  \<open>Request timeout\<close>. With a \<open>disconnect\<close> in between, the timer still runs after
  30000 ms and is used up, but finds no pending request and rejects nothing, then or
  later.
\<close>

theorem timeout_lost_after_disconnect:
  "settled (ws_run [CallToolOut ''echo'' JNull, Elapse 30000] ws_open) = [(1, Rejected ''Request timeout'')]
   \<and> settled (ws_run [CallToolOut ''echo'' JNull, Disconnect, Elapse 30000] ws_open) = []
   \<and> timers (ws_run [CallToolOut ''echo'' JNull, Disconnect, Elapse 30000] ws_open) = []
   \<and> settled (ws_run [CallToolOut ''echo'' JNull, Disconnect, Elapse 30000, Elapse 600000] ws_open) = []"
  by (simp add: ws_callTool_def request_def send_def say_def disconnect_def elapse_def
        request_timeout_def Let_def ws_open_fields)

section \<open>Theorems: bounded reconnection\<close>

lemmas sse_defs = sse_say_def sse_connect_def sse_reconnect_def sse_onopen_def sse_onerror_def
  sse_onmessage_def sse_disconnect_def

lemma budget_handleMessage:
  "budget (handleMessage m w) = budget w \<and> timers (handleMessage m w) = timers w"
  by (cases m)
     (auto simp: budget_def reconnects_started_def ws_defs Let_def split: option.splits sum.splits)

lemma budget_fire: "budget (fire t w) = budget w \<and> timers (fire t w) = timers w"
  by (cases t) (auto simp: budget_def reconnects_started_def ws_defs)

lemma budget_fire_all: "budget (fire_all ts w) = budget w \<and> timers (fire_all ts w) = timers w"
proof (induction ts arbitrary: w)
  case Nil
  then show ?case by simp
next
  case (Cons a ts)
  obtain due t where a: "a = (due, t)" by (cases a)
  show ?case using Cons.IH [of "fire t w"] budget_fire [of t w] a by simp
qed

lemma length_filter_filter_le: "length (filter P (filter Q xs)) \<le> length (filter P xs)"
  by (induction xs) auto

lemma budget_elapse:
  "budget (elapse dt w) = budget w \<and> reconnects_waiting (elapse dt w) \<le> reconnects_waiting w"
proof -
  let ?later = "filter (\<lambda>(d, t). \<not> d \<le> clock w + dt) (timers w)"
  let ?w = "w\<lparr>clock := clock w + dt, timers := ?later\<rparr>"
  have b: "budget ?w = budget w" by (simp add: budget_def reconnects_started_def)
  have "length (filter (\<lambda>(d, t). t = ReconnectTimer) ?later)
          \<le> length (filter (\<lambda>(d, t). t = ReconnectTimer) (timers w))"
    by (rule length_filter_filter_le)
  then have t: "reconnects_waiting ?w \<le> reconnects_waiting w"
    by (simp add: reconnects_waiting_def)
  from budget_fire_all [of _ ?w] b t show ?thesis
    by (simp add: elapse_def Let_def reconnects_waiting_def)
qed

lemma budget_step:
  assumes "maxReconnectAttempts w \<le> reconnectAttempts w" and "e \<noteq> SockOpen"
  shows "budget (ws_step e w) = budget w \<and> reconnects_waiting (ws_step e w) \<le> reconnects_waiting w"
proof (cases e)
  case (SockMessage m)
  then show ?thesis using budget_handleMessage [of m w] by (simp add: reconnects_waiting_def)
next
  case (Elapse dt)
  then show ?thesis by (simp add: budget_elapse)
next
  case SockOpen
  with assms show ?thesis by simp
qed (use assms in \<open>auto simp: budget_def reconnects_started_def reconnects_waiting_def ws_defs Let_def\<close>)

lemma budget_run:
  assumes "maxReconnectAttempts w \<le> reconnectAttempts w" and "SockOpen \<notin> set evs"
  shows "budget (ws_run evs w) = budget w \<and> reconnects_waiting (ws_run evs w) \<le> reconnects_waiting w"
  using assms
proof (induction evs arbitrary: w)
  case Nil
  then show ?case by simp
next
  case (Cons e evs)
  from Cons.prems have ne: "e \<noteq> SockOpen" and rest: "SockOpen \<notin> set evs" by auto
  from budget_step [OF Cons.prems(1) ne]
  have b: "budget (ws_step e w) = budget w"
    and t: "reconnects_waiting (ws_step e w) \<le> reconnects_waiting w" by blast+
  from b Cons.prems(1) have "maxReconnectAttempts (ws_step e w) \<le> reconnectAttempts (ws_step e w)"
    by (simp add: budget_def)
  from Cons.IH [OF this rest] b t show ?case by simp
qed

lemma sse_budget_fire_all:
  "sse_budget (sse_fire_all ts s) = sse_budget s \<and> sse_timers (sse_fire_all ts s) = sse_timers s"
  by (induction ts arbitrary: s) (simp_all add: sse_budget_def sse_reconnects_started_def sse_defs)

lemma sse_budget_elapse:
  "sse_budget (sse_elapse dt s) = sse_budget s \<and> length (sse_timers (sse_elapse dt s)) \<le> length (sse_timers s)"
proof -
  let ?s = "s\<lparr>sse_clock := sse_clock s + dt, sse_timers := filter (\<lambda>d. \<not> d \<le> sse_clock s + dt) (sse_timers s)\<rparr>"
  have "sse_budget ?s = sse_budget s" by (simp add: sse_budget_def sse_reconnects_started_def)
  with sse_budget_fire_all [of _ ?s] show ?thesis
    by (simp add: sse_elapse_def Let_def)
qed

lemma sse_budget_step:
  assumes "sse_maxReconnectAttempts s \<le> sse_reconnectAttempts s" and "e \<noteq> SseOpen"
  shows "sse_budget (sse_step e s) = sse_budget s
       \<and> length (sse_timers (sse_step e s)) \<le> length (sse_timers s)"
proof (cases e)
  case (SseElapse dt)
  then show ?thesis by (simp add: sse_budget_elapse)
next
  case SseOpen
  with assms show ?thesis by simp
qed (use assms in \<open>auto simp: sse_budget_def sse_reconnects_started_def sse_defs Let_def\<close>)

lemma sse_budget_run:
  assumes "sse_maxReconnectAttempts s \<le> sse_reconnectAttempts s" and "SseOpen \<notin> set evs"
  shows "sse_budget (sse_run evs s) = sse_budget s
       \<and> length (sse_timers (sse_run evs s)) \<le> length (sse_timers s)"
  using assms
proof (induction evs arbitrary: s)
  case Nil
  then show ?case by simp
next
  case (Cons e evs)
  from Cons.prems have ne: "e \<noteq> SseOpen" and rest: "SseOpen \<notin> set evs" by auto
  from sse_budget_step [OF Cons.prems(1) ne]
  have b: "sse_budget (sse_step e s) = sse_budget s"
    and t: "length (sse_timers (sse_step e s)) \<le> length (sse_timers s)" by blast+
  from b Cons.prems(1) have "sse_maxReconnectAttempts (sse_step e s) \<le> sse_reconnectAttempts (sse_step e s)"
    by (simp add: sse_budget_def)
  from Cons.IH [OF this rest] b t show ?case by simp
qed

text \<open>
  C8, as the code has it. For both transports: once \<open>reconnectAttempts\<close> has reached
  \<open>maxReconnectAttempts\<close>, then through every sequence of events in which no connection
  opens, \<open>reconnect\<close> schedules nothing: no further \<open>Reconnecting\<close> line is written, no
  reconnect timer is added, and the two numbers stay as they are. What ends the stop is
  the opening of a connection, which sets the count back to 0: after an explicit
  \<open>connect\<close>, or with no such call when the last scheduled attempt succeeds. The default
  bound is 10.
\<close>

theorem reconnect_bounded:
  "(maxReconnectAttempts w \<le> reconnectAttempts w \<and> SockOpen \<notin> set evs \<longrightarrow>
      reconnects_started (ws_run evs w) = reconnects_started w
      \<and> reconnects_waiting (ws_run evs w) \<le> reconnects_waiting w
      \<and> reconnectAttempts (ws_run evs w) = reconnectAttempts w
      \<and> maxReconnectAttempts (ws_run evs w) = maxReconnectAttempts w)
   \<and> (sse_maxReconnectAttempts s \<le> sse_reconnectAttempts s \<and> SseOpen \<notin> set sevs \<longrightarrow>
      sse_reconnects_started (sse_run sevs s) = sse_reconnects_started s
      \<and> length (sse_timers (sse_run sevs s)) \<le> length (sse_timers s)
      \<and> sse_reconnectAttempts (sse_run sevs s) = sse_reconnectAttempts s
      \<and> sse_maxReconnectAttempts (sse_run sevs s) = sse_maxReconnectAttempts s)
   \<and> reconnectAttempts (ws_run [Connect, SockOpen] w) = 0
   \<and> sse_reconnectAttempts (sse_run [SseConnect, SseOpen] s) = 0
   \<and> maxReconnectAttempts (new_WebSocketTransport interval None) = 10
   \<and> sse_maxReconnectAttempts (new_HttpSseTransport interval None) = 10"
proof -
  have ws: "maxReconnectAttempts w \<le> reconnectAttempts w \<and> SockOpen \<notin> set evs \<longrightarrow>
      reconnects_started (ws_run evs w) = reconnects_started w
      \<and> reconnects_waiting (ws_run evs w) \<le> reconnects_waiting w
      \<and> reconnectAttempts (ws_run evs w) = reconnectAttempts w
      \<and> maxReconnectAttempts (ws_run evs w) = maxReconnectAttempts w"
    using budget_run [of w evs] by (simp add: budget_def)
  have sse: "sse_maxReconnectAttempts s \<le> sse_reconnectAttempts s \<and> SseOpen \<notin> set sevs \<longrightarrow>
      sse_reconnects_started (sse_run sevs s) = sse_reconnects_started s
      \<and> length (sse_timers (sse_run sevs s)) \<le> length (sse_timers s)
      \<and> sse_reconnectAttempts (sse_run sevs s) = sse_reconnectAttempts s
      \<and> sse_maxReconnectAttempts (sse_run sevs s) = sse_maxReconnectAttempts s"
    using sse_budget_run [of s sevs] by (simp add: sse_budget_def)
  have r1: "reconnectAttempts (ws_run [Connect, SockOpen] w) = 0"
    by (simp add: ws_defs)
  have r2: "sse_reconnectAttempts (sse_run [SseConnect, SseOpen] s) = 0"
    by (simp add: sse_defs)
  have d1: "maxReconnectAttempts (new_WebSocketTransport interval None) = 10"
    by (simp add: new_WebSocketTransport_def)
  have d2: "sse_maxReconnectAttempts (new_HttpSseTransport interval None) = 10"
    by (simp add: new_HttpSseTransport_def)
  show ?thesis by (intro conjI) (rule ws sse r1 r2 d1 d2)+
qed

lemma ws_spent_fields:
  "reconnectAttempts ws_spent = 1" "maxReconnectAttempts ws_spent = 1"
  "console ws_spent = [LineConnected, LineReconnecting 1]" "timers ws_spent = [(5000, ReconnectTimer)]"
  by (simp_all add: ws_spent_def new_WebSocketTransport_def ws_defs Let_def)

lemma sse_spent_fields:
  "sse_reconnectAttempts sse_spent = 1" "sse_maxReconnectAttempts sse_spent = 1"
  "sse_console sse_spent = [LineConnected, LineError, LineReconnecting 1]" "sse_timers sse_spent = [5000]"
  by (simp_all add: sse_spent_def new_HttpSseTransport_def sse_defs Let_def)

lemma ws_zero_fields:
  "reconnectAttempts ws_zero = 0" "maxReconnectAttempts ws_zero = 0" "connected ws_zero"
  "console ws_zero = [LineConnected]" "timers ws_zero = []"
  by (simp_all add: ws_zero_def new_WebSocketTransport_def ws_defs Let_def)

lemma sse_zero_fields:
  "sse_reconnectAttempts sse_zero = 0" "sse_maxReconnectAttempts sse_zero = 0" "sse_connected sse_zero"
  "sse_console sse_zero = [LineConnected]" "sse_timers sse_zero = []"
  by (simp_all add: sse_zero_def new_HttpSseTransport_def sse_defs Let_def)

text \<open>
  With the bound 0 the connection that drops reaches the test in \<open>reconnect\<close>, which
  writes \<open>Max reconnect attempts reached\<close> and schedules nothing; with the bound 1 and one
  attempt made, nothing more is started while no connection opens.
\<close>

theorem reconnect_bounded_witness:
  "maxReconnectAttempts ws_zero \<le> reconnectAttempts ws_zero
   \<and> console (ws_run [SockClose] ws_zero) = [LineConnected, LineMaxReached]
   \<and> reconnects_started (ws_run [SockClose, Connect, SockError, SockClose, Elapse 60000] ws_zero) = 0
   \<and> timers (ws_run [SockClose] ws_zero) = []
   \<and> sse_maxReconnectAttempts sse_zero \<le> sse_reconnectAttempts sse_zero
   \<and> sse_console (sse_run [SseError] sse_zero) = [LineConnected, LineError, LineMaxReached]
   \<and> sse_reconnects_started (sse_run [SseError, SseConnect, SseError, SseElapse 60000] sse_zero) = 0
   \<and> maxReconnectAttempts ws_spent \<le> reconnectAttempts ws_spent
   \<and> reconnects_started ws_spent = 1
   \<and> reconnects_started (ws_run [Elapse 5000, SockError, SockClose, Connect, SockClose, Elapse 60000] ws_spent) = 1
   \<and> sse_maxReconnectAttempts sse_spent \<le> sse_reconnectAttempts sse_spent
   \<and> sse_reconnects_started sse_spent = 1
   \<and> sse_reconnects_started (sse_run [SseElapse 5000, SseError, SseConnect, SseError, SseElapse 60000] sse_spent) = 1"
proof -
  have a0: "SockOpen \<notin> set [SockClose, Connect, SockError, SockClose, Elapse 60000]" by simp
  have b0: "SseOpen \<notin> set [SseError, SseConnect, SseError, SseElapse 60000]" by simp
  have c0: "maxReconnectAttempts ws_zero \<le> reconnectAttempts ws_zero" by (simp add: ws_zero_fields)
  have d0: "sse_maxReconnectAttempts sse_zero \<le> sse_reconnectAttempts sse_zero" by (simp add: sse_zero_fields)
  note Z = reconnect_bounded [of ws_zero "[SockClose, Connect, SockError, SockClose, Elapse 60000]"
              sse_zero "[SseError, SseConnect, SseError, SseElapse 60000]" None]
  from Z a0 c0 have e0: "reconnects_started (ws_run [SockClose, Connect, SockError, SockClose, Elapse 60000] ws_zero)
        = reconnects_started ws_zero" by blast
  from Z b0 d0 have f0: "sse_reconnects_started (sse_run [SseError, SseConnect, SseError, SseElapse 60000] sse_zero)
        = sse_reconnects_started sse_zero" by blast
  have g0: "reconnects_started ws_zero = 0" by (simp add: reconnects_started_def ws_zero_fields)
  have h0: "sse_reconnects_started sse_zero = 0" by (simp add: sse_reconnects_started_def sse_zero_fields)
  have guard: "console (ws_run [SockClose] ws_zero) = [LineConnected, LineMaxReached]"
    "timers (ws_run [SockClose] ws_zero) = []"
    by (simp_all add: ws_defs ws_zero_fields)
  have sse_guard: "sse_console (sse_run [SseError] sse_zero) = [LineConnected, LineError, LineMaxReached]"
    by (simp add: sse_defs Let_def sse_zero_fields)
  have a: "SockOpen \<notin> set [Elapse 5000, SockError, SockClose, Connect, SockClose, Elapse 60000]" by simp
  have b: "SseOpen \<notin> set [SseElapse 5000, SseError, SseConnect, SseError, SseElapse 60000]" by simp
  have c: "maxReconnectAttempts ws_spent \<le> reconnectAttempts ws_spent" by (simp add: ws_spent_fields)
  have d: "sse_maxReconnectAttempts sse_spent \<le> sse_reconnectAttempts sse_spent" by (simp add: sse_spent_fields)
  note T = reconnect_bounded [of ws_spent "[Elapse 5000, SockError, SockClose, Connect, SockClose, Elapse 60000]"
              sse_spent "[SseElapse 5000, SseError, SseConnect, SseError, SseElapse 60000]" None]
  from T a c have e: "reconnects_started (ws_run [Elapse 5000, SockError, SockClose, Connect, SockClose, Elapse 60000] ws_spent)
        = reconnects_started ws_spent" by blast
  from T b d have f: "sse_reconnects_started (sse_run [SseElapse 5000, SseError, SseConnect, SseError, SseElapse 60000] sse_spent)
        = sse_reconnects_started sse_spent" by blast
  have g: "reconnects_started ws_spent = 1" by (simp add: reconnects_started_def ws_spent_fields)
  have h: "sse_reconnects_started sse_spent = 1" by (simp add: sse_reconnects_started_def sse_spent_fields)
  from c0 d0 e0 f0 g0 h0 guard sse_guard c d e f g h show ?thesis by simp
qed

text \<open>
  The claim as it is worded, with the stop lasting until \<open>connect\<close> is called again
  explicitly, does not hold. With the bound 1 and one attempt made the count has reached
  the bound; the timer of that attempt calls \<open>connect\<close>, the connection opens and drops
  again, and a second reconnect is started, with no explicit \<open>connect\<close> among the
  events.
\<close>

theorem reconnect_resumes_without_connect:
  "maxReconnectAttempts ws_spent \<le> reconnectAttempts ws_spent
   \<and> Connect \<notin> set [Elapse 5000, SockOpen, SockClose]
   \<and> reconnects_started ws_spent = 1
   \<and> reconnects_started (ws_run [Elapse 5000, SockOpen, SockClose] ws_spent) = 2
   \<and> sse_maxReconnectAttempts sse_spent \<le> sse_reconnectAttempts sse_spent
   \<and> SseConnect \<notin> set [SseElapse 5000, SseOpen, SseError]
   \<and> sse_reconnects_started sse_spent = 1
   \<and> sse_reconnects_started (sse_run [SseElapse 5000, SseOpen, SseError] sse_spent) = 2"
proof -
  have w: "reconnects_started (ws_run [Elapse 5000, SockOpen, SockClose] ws_spent) = 2"
    by (simp add: reconnects_started_def elapse_def Let_def ws_defs ws_spent_fields)
  have s: "sse_reconnects_started (sse_run [SseElapse 5000, SseOpen, SseError] sse_spent) = 2"
    by (simp add: sse_reconnects_started_def sse_elapse_def Let_def sse_defs sse_spent_fields)
  from w s show ?thesis
    by (simp add: reconnects_started_def sse_reconnects_started_def ws_spent_fields sse_spent_fields)
qed

section \<open>Theorems: how far the reconnect count gets\<close>

lemma fresh_count_fire_all: "fresh_count w \<Longrightarrow> fresh_count (fire_all ts w)"
proof (induction ts arbitrary: w)
  case Nil
  then show ?case by simp
next
  case (Cons a ts)
  obtain due t where a: "a = (due, t)" by (cases a)
  from Cons.prems have "fresh_count (fire t w)"
    by (cases t) (auto simp: fresh_count_def ws_defs split: if_splits)
  from Cons.IH [OF this] a show ?case by simp
qed

lemma fresh_count_step: "fresh_count w \<Longrightarrow> fresh_count (ws_step e w)"
proof (cases e)
  case (SockMessage m)
  assume "fresh_count w"
  with SockMessage show ?thesis
    by (cases m) (auto simp: fresh_count_def ws_defs Let_def split: option.splits sum.splits if_splits)
next
  case (Elapse dt)
  assume "fresh_count w"
  then have "fresh_count (w\<lparr>clock := clock w + dt,
      timers := filter (\<lambda>(d, t). \<not> d \<le> clock w + dt) (timers w)\<rparr>)"
    by (simp add: fresh_count_def)
  with Elapse show ?thesis by (simp add: elapse_def Let_def fresh_count_fire_all)
qed (auto simp: fresh_count_def ws_defs Let_def split: if_splits)

text \<open>
  In every state a transport reaches from its construction the count of reconnect
  attempts is at most 1: an attempt that fails is not followed by another.
\<close>

lemma reconnectAttempts_at_most_one:
  "reconnectAttempts (ws_run evs (new_WebSocketTransport interval maxAttempts)) \<le> 1"
proof -
  have run: "\<And>w. fresh_count w \<Longrightarrow> fresh_count (ws_run evs w)"
    by (induction evs) (simp_all add: fresh_count_step)
  have "fresh_count (new_WebSocketTransport interval maxAttempts)"
    by (simp add: fresh_count_def new_WebSocketTransport_def)
  from run [OF this] show ?thesis
    by (simp add: fresh_count_def split: if_splits)
qed

lemma sse_fresh_count_fire_all: "sse_fresh_count s \<Longrightarrow> sse_fresh_count (sse_fire_all ts s)"
proof (induction ts arbitrary: s)
  case Nil
  then show ?case by simp
next
  case (Cons a ts)
  from Cons.prems have "sse_fresh_count (sse_connect s)"
    by (simp add: sse_fresh_count_def sse_defs split: if_splits)
  from Cons.IH [OF this] show ?case by simp
qed

lemma sse_fresh_count_step: "sse_fresh_count s \<Longrightarrow> sse_fresh_count (sse_step e s)"
proof (cases e)
  case (SseElapse dt)
  assume "sse_fresh_count s"
  then have "sse_fresh_count (s\<lparr>sse_clock := sse_clock s + dt,
      sse_timers := filter (\<lambda>d. \<not> d \<le> sse_clock s + dt) (sse_timers s)\<rparr>)"
    by (simp add: sse_fresh_count_def)
  with SseElapse show ?thesis by (simp add: sse_elapse_def Let_def sse_fresh_count_fire_all)
qed (auto simp: sse_fresh_count_def sse_defs Let_def split: if_splits)

lemma sse_reconnectAttempts_at_most_one:
  "sse_reconnectAttempts (sse_run evs (new_HttpSseTransport interval maxAttempts)) \<le> 1"
proof -
  have run: "\<And>s. sse_fresh_count s \<Longrightarrow> sse_fresh_count (sse_run evs s)"
    by (induction evs) (simp_all add: sse_fresh_count_step)
  have "sse_fresh_count (new_HttpSseTransport interval maxAttempts)"
    by (simp add: sse_fresh_count_def new_HttpSseTransport_def)
  from run [OF this] show ?thesis
    by (simp add: sse_fresh_count_def split: if_splits)
qed

section \<open>Theorems: the timeout of a request\<close>

lemma awaiting_handleMessage:
  "awaiting i D w \<Longrightarrow> \<not> answers i (SockMessage m)
   \<Longrightarrow> awaiting i D (handleMessage m w) \<and> settlements_of i (handleMessage m w) = settlements_of i w"
  by (cases m)
     (auto simp: awaiting_def settlements_of_def ws_defs Let_def split: option.splits sum.splits)

lemma awaiting_fire:
  "i \<in> set (pendingRequests w) \<Longrightarrow> i \<le> requestCounter w \<Longrightarrow> t \<noteq> RequestTimeout i
   \<Longrightarrow> i \<in> set (pendingRequests (fire t w)) \<and> requestCounter (fire t w) = requestCounter w
       \<and> settlements_of i (fire t w) = settlements_of i w
       \<and> timers (fire t w) = timers w \<and> clock (fire t w) = clock w"
  by (cases t) (auto simp: settlements_of_def ws_defs)

lemma awaiting_fire_all:
  "i \<in> set (pendingRequests w) \<Longrightarrow> i \<le> requestCounter w \<Longrightarrow> RequestTimeout i \<notin> snd ` set ts
   \<Longrightarrow> i \<in> set (pendingRequests (fire_all ts w)) \<and> requestCounter (fire_all ts w) = requestCounter w
       \<and> settlements_of i (fire_all ts w) = settlements_of i w
       \<and> timers (fire_all ts w) = timers w \<and> clock (fire_all ts w) = clock w"
proof (induction ts arbitrary: w)
  case Nil
  then show ?case by simp
next
  case (Cons a ts)
  obtain due t where a: "a = (due, t)" by (cases a)
  from Cons.prems a have ne: "t \<noteq> RequestTimeout i" and rest: "RequestTimeout i \<notin> snd ` set ts"
    by auto
  note F = awaiting_fire [OF Cons.prems(1,2) ne]
  from F have "i \<le> requestCounter (fire t w)" using Cons.prems(2) by simp
  from Cons.IH [OF _ this rest] F a show ?case by simp
qed

lemma awaiting_elapse:
  assumes "awaiting i D w" and "clock w + dt < D"
  shows "awaiting i D (elapse dt w) \<and> settlements_of i (elapse dt w) = settlements_of i w"
proof -
  let ?now = "clock w + dt"
  let ?due = "filter (\<lambda>(d, t). d \<le> ?now) (timers w)"
  let ?later = "filter (\<lambda>(d, t). \<not> d \<le> ?now) (timers w)"
  let ?w = "w\<lparr>clock := ?now, timers := ?later\<rparr>"
  from assms have all: "list_all (\<lambda>(d, t). t \<noteq> RequestTimeout i \<or> d = D) (timers w)"
    by (simp add: awaiting_def)
  have nodue: "RequestTimeout i \<notin> snd ` set (sort_key fst ?due)"
  proof
    assume "RequestTimeout i \<in> snd ` set (sort_key fst ?due)"
    then obtain d where "(d, RequestTimeout i) \<in> set (timers w)" "d \<le> ?now" by auto
    with all have "D \<le> ?now" by (auto simp: list_all_iff)
    with assms(2) show False by simp
  qed
  have p: "i \<in> set (pendingRequests ?w)" and c: "i \<le> requestCounter ?w"
    using assms(1) by (simp_all add: awaiting_def)
  note F = awaiting_fire_all [OF p c nodue]
  have keep: "(D, RequestTimeout i) \<in> set ?later"
    using assms by (auto simp: awaiting_def)
  have all': "list_all (\<lambda>(d, t). t \<noteq> RequestTimeout i \<or> d = D) ?later"
    using all by (auto simp: list_all_iff)
  have e: "elapse dt w = fire_all (sort_key fst ?due) ?w" by (simp add: elapse_def Let_def)
  have s: "settlements_of i ?w = settlements_of i w" by (simp add: settlements_of_def)
  from F keep all' assms(2) s c show ?thesis
    unfolding e awaiting_def by simp
qed

lemma awaiting_step:
  assumes "awaiting i D w" and "e \<noteq> Disconnect" and "\<not> answers i e"
    and "clock w + elapsed [e] < D"
  shows "awaiting i D (ws_step e w) \<and> settlements_of i (ws_step e w) = settlements_of i w"
proof (cases e)
  case (SockMessage m)
  with assms show ?thesis using awaiting_handleMessage [of i D w m] by simp
next
  case (Elapse dt)
  with assms show ?thesis using awaiting_elapse [of i D w dt] by simp
next
  case Disconnect
  with assms show ?thesis by simp
qed (use assms in \<open>auto simp: awaiting_def settlements_of_def ws_defs Let_def\<close>)

lemma clock_fire_all: "clock (fire_all ts w) = clock w"
proof (induction ts arbitrary: w)
  case Nil
  then show ?case by simp
next
  case (Cons a ts)
  obtain due t where a: "a = (due, t)" by (cases a)
  have "clock (fire t w) = clock w" by (cases t) (simp_all add: ws_defs)
  with Cons.IH [of "fire t w"] a show ?case by simp
qed

lemma clock_step: "clock (ws_step e w) = clock w + elapsed [e]"
proof (cases e)
  case (SockMessage m)
  then show ?thesis by (cases m) (simp_all add: ws_defs Let_def split: option.splits sum.splits)
next
  case (Elapse dt)
  then show ?thesis by (simp add: elapse_def Let_def clock_fire_all)
qed (simp_all add: ws_defs Let_def)

lemma elapsed_Cons: "elapsed (e # es) = elapsed [e] + elapsed es"
  by (cases e) simp_all

lemma awaiting_run:
  assumes "awaiting i D w" and "Disconnect \<notin> set evs" and "list_all (\<lambda>e. \<not> answers i e) evs"
    and "clock w + elapsed evs < D"
  shows "awaiting i D (ws_run evs w) \<and> settlements_of i (ws_run evs w) = settlements_of i w
       \<and> clock (ws_run evs w) = clock w + elapsed evs"
  using assms
proof (induction evs arbitrary: w)
  case Nil
  then show ?case by simp
next
  case (Cons e evs)
  from Cons.prems have ne: "e \<noteq> Disconnect" and na: "\<not> answers i e"
    and rest: "Disconnect \<notin> set evs" "list_all (\<lambda>e. \<not> answers i e) evs" by auto
  from Cons.prems(4) have t1: "clock w + elapsed [e] < D" and t2: "clock w + elapsed [e] + elapsed evs < D"
    using elapsed_Cons [of e evs] by simp_all
  from awaiting_step [OF Cons.prems(1) ne na t1]
  have a: "awaiting i D (ws_step e w)" and s: "settlements_of i (ws_step e w) = settlements_of i w"
    by blast+
  from t2 have "clock (ws_step e w) + elapsed evs < D" by (simp add: clock_step)
  from Cons.IH [OF a rest this] s show ?case
    using elapsed_Cons [of e evs] by (simp add: clock_step)
qed

text \<open>Running the due timers of a request that is still pending rejects it, once.\<close>

lemma fire_all_rejects:
  "i \<in> set (pendingRequests w) \<Longrightarrow> i \<le> requestCounter w \<Longrightarrow> RequestTimeout i \<in> snd ` set ts
   \<Longrightarrow> gone i (fire_all ts w)
       \<and> settlements_of i (fire_all ts w) = settlements_of i w @ [Rejected ''Request timeout'']"
proof (induction ts arbitrary: w)
  case Nil
  then show ?case by simp
next
  case (Cons a ts)
  obtain due t where a: "a = (due, t)" by (cases a)
  show ?case
  proof (cases "t = RequestTimeout i")
    case True
    have g: "gone i (fire t w)" using True Cons.prems(1,2) by (simp add: gone_def ws_defs)
    have s: "settlements_of i (fire t w) = settlements_of i w @ [Rejected ''Request timeout'']"
      using True Cons.prems(1) by (simp add: settlements_of_def ws_defs)
    from gone_fire_all [OF g, of ts] s a show ?thesis by simp
  next
    case False
    note F = awaiting_fire [OF Cons.prems(1,2) False]
    from Cons.prems(3) a False have rest: "RequestTimeout i \<in> snd ` set ts" by auto
    from F Cons.prems(2) have c: "i \<le> requestCounter (fire t w)" by simp
    from Cons.IH [OF _ c rest] F a show ?thesis by simp
  qed
qed

lemma awaiting_times_out:
  assumes "awaiting i D w" and "D \<le> clock w + dt"
  shows "gone i (elapse dt w)
       \<and> settlements_of i (elapse dt w) = settlements_of i w @ [Rejected ''Request timeout'']"
proof -
  let ?now = "clock w + dt"
  let ?due = "filter (\<lambda>(d, t). d \<le> ?now) (timers w)"
  let ?w = "w\<lparr>clock := ?now, timers := filter (\<lambda>(d, t). \<not> d \<le> ?now) (timers w)\<rparr>"
  from assms have "(D, RequestTimeout i) \<in> set ?due" by (simp add: awaiting_def)
  then have due: "RequestTimeout i \<in> snd ` set (sort_key fst ?due)" by force
  have p: "i \<in> set (pendingRequests ?w)" and c: "i \<le> requestCounter ?w"
    using assms(1) by (simp_all add: awaiting_def)
  have s: "settlements_of i ?w = settlements_of i w" by (simp add: settlements_of_def)
  from fire_all_rejects [OF p c due] s show ?thesis by (simp add: elapse_def Let_def)
qed

lemma request_awaiting:
  assumes "timers_issued w"
  shows "awaiting (fst (request ty d w)) (clock w + 30000) (snd (request ty d w))
       \<and> settlements_of (fst (request ty d w)) (snd (request ty d w)) = settlements_of (fst (request ty d w)) w"
proof -
  have "list_all (\<lambda>(dd, t). t \<noteq> RequestTimeout (Suc (requestCounter w)) \<or> dd = clock w + 30000) (timers w)"
    using assms by (fastforce simp: timers_issued_def list_all_iff)
  then show ?thesis
    by (simp add: awaiting_def settlements_of_def ws_defs Let_def)
qed

text \<open>
  The timeout as it works: a call made in a state whose timeouts all belong to issued
  ids, followed by events that take less than 30 seconds and hold neither a
  \<open>disconnect\<close> nor a response to the call, is rejected with \<open>Request timeout\<close> by the
  passing of time that completes the 30 seconds: exactly one continuation call is added,
  the id is no longer pending, and nothing that follows settles the call again.
\<close>

lemma request_times_out:
  assumes "timers_issued w" and "Disconnect \<notin> set evs"
    and "list_all (\<lambda>e. \<not> answers (fst (request ty d w)) e) evs"
    and "elapsed evs < 30000" and "30000 \<le> elapsed evs + dt"
  shows "settlements_of (fst (request ty d w))
           (ws_run (evs @ Elapse dt # evs') (snd (request ty d w)))
         = settlements_of (fst (request ty d w)) w @ [Rejected ''Request timeout'']
       \<and> fst (request ty d w) \<notin> set (pendingRequests (ws_run (evs @ Elapse dt # evs') (snd (request ty d w))))
       \<and> settlements_of (fst (request ty d w)) (ws_run evs (snd (request ty d w)))
         = settlements_of (fst (request ty d w)) w"
proof -
  let ?i = "fst (request ty d w)" and ?w1 = "snd (request ty d w)"
  let ?D = "clock w + 30000"
  have ck: "clock ?w1 = clock w" by (simp add: ws_defs Let_def)
  from request_awaiting [OF assms(1)]
  have a1: "awaiting ?i ?D ?w1" and s1: "settlements_of ?i ?w1 = settlements_of ?i w" by blast+
  from assms(4) ck have "clock ?w1 + elapsed evs < ?D" by simp
  from awaiting_run [OF a1 assms(2,3) this]
  have a2: "awaiting ?i ?D (ws_run evs ?w1)"
    and s2: "settlements_of ?i (ws_run evs ?w1) = settlements_of ?i ?w1"
    and c2: "clock (ws_run evs ?w1) = clock ?w1 + elapsed evs" by blast+
  from assms(5) c2 ck have "?D \<le> clock (ws_run evs ?w1) + dt" by simp
  from awaiting_times_out [OF a2 this]
  have g3: "gone ?i (elapse dt (ws_run evs ?w1))"
    and s3: "settlements_of ?i (elapse dt (ws_run evs ?w1))
               = settlements_of ?i (ws_run evs ?w1) @ [Rejected ''Request timeout'']" by blast+
  have split: "\<And>es es' v. ws_run (es @ es') v = ws_run es' (ws_run es v)"
  proof -
    fix es es' v show "ws_run (es @ es') v = ws_run es' (ws_run es v)"
      by (induction es arbitrary: v) simp_all
  qed
  from gone_run [OF g3, of evs']
  have g4: "gone ?i (ws_run evs' (elapse dt (ws_run evs ?w1)))"
    and s4: "settlements_of ?i (ws_run evs' (elapse dt (ws_run evs ?w1)))
               = settlements_of ?i (elapse dt (ws_run evs ?w1))" by blast+
  have r: "ws_run (evs @ Elapse dt # evs') ?w1 = ws_run evs' (elapse dt (ws_run evs ?w1))"
    by (simp add: split)
  from g4 s4 s3 s2 s1 show ?thesis unfolding r by (simp add: gone_def)
qed

text \<open>The timeout of one request leaves every other request as it was.\<close>

lemma request_timeout_others:
  "j \<noteq> i \<Longrightarrow> (j \<in> set (pendingRequests (request_timeout i w))) = (j \<in> set (pendingRequests w))
     \<and> settlements_of j (request_timeout i w) = settlements_of j w"
  by (simp add: request_timeout_def settlements_of_def)

lemma timers_issued_new: "timers_issued (new_WebSocketTransport interval maxAttempts)"
  by (simp add: timers_issued_def new_WebSocketTransport_def)

lemma timers_issued_fire_all:
  "timers (fire_all ts w) = timers w \<and> requestCounter (fire_all ts w) = requestCounter w"
proof (induction ts arbitrary: w)
  case Nil
  then show ?case by simp
next
  case (Cons a ts)
  obtain due t where a: "a = (due, t)" by (cases a)
  have "timers (fire t w) = timers w \<and> requestCounter (fire t w) = requestCounter w"
    by (cases t) (simp_all add: ws_defs)
  with Cons.IH [of "fire t w"] a show ?case by simp
qed

lemma issued_Suc: "issued n t \<Longrightarrow> issued (Suc n) t"
  by (cases t) simp_all

lemma timers_issued_step: "timers_issued w \<Longrightarrow> timers_issued (ws_step e w)"
proof (cases e)
  case (SockMessage m)
  assume "timers_issued w"
  with SockMessage show ?thesis
    by (cases m) (auto simp: timers_issued_def ws_defs Let_def split: option.splits sum.splits)
next
  case (Elapse dt)
  assume "timers_issued w"
  with Elapse show ?thesis
    by (auto simp: timers_issued_def elapse_def Let_def timers_issued_fire_all list_all_iff)
next
  case (CallToolOut tool params)
  assume "timers_issued w"
  with CallToolOut show ?thesis
    by (auto simp: timers_issued_def ws_defs Let_def list_all_iff issued_Suc)
next
  case (ReadResourceOut u)
  assume "timers_issued w"
  with ReadResourceOut show ?thesis
    by (auto simp: timers_issued_def ws_defs Let_def list_all_iff issued_Suc)
qed (auto simp: timers_issued_def ws_defs Let_def)

text \<open>Every state that a transport reaches from its construction qualifies.\<close>

lemma timers_issued_run: "timers_issued w \<Longrightarrow> timers_issued (ws_run evs w)"
  by (induction evs arbitrary: w) (simp_all add: timers_issued_step)

end
